theory Spec2Isabelle
  imports Main "HOL-Library.Word" "HOL-Library.Sublist"
begin

section \<open>The auto-rolling logger of rocksutil (\<^verbatim>\<open>rutil/auto_roll_logger.cc\<close>)\<close>

text \<open>
  The sink \<^verbatim>\<open>AutoRollLogger\<close> writes log lines through an underlying writer and
  replaces that writer by a fresh one (after renaming the active file aside) when the
  file is too big or too old. The development below embeds the functions of
  \<^verbatim>\<open>auto_roll_logger.cc\<close> one by one, run by one thread: the mutex is held where the
  source takes it and is not modelled. \<^verbatim>\<open>uint64_t\<close> and \<^verbatim>\<open>size_t\<close> are 64-bit
  words (an LP64 platform), so \<open>+\<close> wraps around as in the source.
\<close>

type_synonym u64 = "64 word"

subsection \<open>Status values\<close>

text \<open>
  Modelled from the spec: the class \<^verbatim>\<open>Status\<close> is declared outside
  \<^verbatim>\<open>auto_roll_logger.cc\<close>. A status is ok, or an error of some kind with a message;
  the two kinds the design names are \<open>Unsupported\<close> and \<open>IOFailure\<close>.
\<close>

datatype Code = kNotSupported | kIOError

datatype Status = OK | Error Code string

definition ok :: "Status \<Rightarrow> bool" where
  "ok s = (s = OK)"

definition NotSupported :: "string \<Rightarrow> Status" where
  "NotSupported msg = Error kNotSupported msg"

text \<open>
  Modelled from the spec: the enumeration \<^verbatim>\<open>InfoLogLevel\<close> of minimum levels is
  declared outside the file; the writer only stores the level it is given.
\<close>

datatype InfoLogLevel =
  DEBUG_LEVEL | INFO_LEVEL | WARN_LEVEL | ERROR_LEVEL | FATAL_LEVEL | HEADER_LEVEL

subsection \<open>The collaborators: writer, file system and clock\<close>

text \<open>
  Modelled from the spec: the underlying writer (\<^verbatim>\<open>Logger\<close>) and the file system and
  clock (\<^verbatim>\<open>Env\<close>) are abstract classes implemented outside the file. The design gives
  their contract: \<open>append(formatted-bytes)\<close>, \<open>currentSizeOrUnsupported()\<close>,
  \<open>setMinimumLevel(level)\<close> for the writer, and \<open>nowMicros()\<close>, \<open>fileExists(path)\<close>,
  \<open>renameFile(src, dst)\<close>, \<open>createDirIfMissing(path)\<close>, \<open>openWriter(path)\<close> for the
  environment.

  A writer is a handle on an open file: it keeps the file it was opened on even when
  the path is renamed afterwards. Files are therefore numbered, the directory maps
  paths to file numbers, and a file's content is the list of the lines appended to it.
\<close>

record Logger =
  file_id :: nat
  reports_size :: bool
  level :: InfoLogLevel

text \<open>The calls that change the file system are recorded, oldest first.\<close>

datatype event =
  EvCreateDir string
  | EvRename string string
  | EvNewLogger string

text \<open>
  What a call of \<open>openWriter\<close> does is not decided by the sink: the \<open>n\<close>-th call
  fails with an error, or opens a writer that can report its size, or one that cannot.
\<close>

datatype open_outcome = OpenFails Code string | Opens bool

record Env =
  dirs :: "string set"
  mkdir_error :: "string \<Rightarrow> (Code \<times> string) option"
  entries :: "string \<Rightarrow> nat option"
  contents :: "nat \<Rightarrow> string list"
  fresh :: nat
  clock :: "nat \<Rightarrow> u64"
  reads :: nat
  seconds_of :: "u64 \<Rightarrow> u64"
  open_plan :: "nat \<Rightarrow> open_outcome"
  opens :: nat
  trace :: "event list"

text \<open>
  \<^verbatim>\<open>env_->NowMicros()\<close>: the \<open>n\<close>-th reading of the clock is \<open>clock e n\<close>; any
  sequence of readings is possible, also a constant one.
\<close>

definition NowMicros :: "Env \<Rightarrow> u64 \<times> Env" where
  "NowMicros e = (clock e (reads e), e\<lparr>reads := Suc (reads e)\<rparr>)"

text \<open>\<^verbatim>\<open>env_->FileExists(p).ok()\<close>.\<close>

definition FileExists :: "Env \<Rightarrow> string \<Rightarrow> bool" where
  "FileExists e p = (entries e p \<noteq> None)"

text \<open>
  \<^verbatim>\<open>env_->RenameFile(src, dst)\<close>: fails when there is no file at \<open>src\<close>, and
  otherwise moves the directory entry, replacing what was at \<open>dst\<close>.
\<close>

definition RenameFile :: "string \<Rightarrow> string \<Rightarrow> Env \<Rightarrow> Status \<times> Env" where
  "RenameFile src dst e =
     (let e1 = e\<lparr>trace := trace e @ [EvRename src dst]\<rparr> in
      case entries e src of
        None \<Rightarrow> (Error kIOError ''rename: no such file'', e1)
      | Some i \<Rightarrow> (OK, e1\<lparr>entries := ((entries e)(src := None))(dst \<mapsto> i)\<rparr>))"

text \<open>
  \<^verbatim>\<open>env->CreateDirIfMissing(p)\<close>: a status. Nothing is done when the directory is
  there. When it is missing the create may fail, which the sink does not decide:
  \<open>mkdir_error e p\<close> is the error of creating \<open>p\<close>, if any, and then the directory is
  still missing afterwards.
\<close>

definition CreateDirIfMissing :: "string \<Rightarrow> Env \<Rightarrow> Status \<times> Env" where
  "CreateDirIfMissing p e =
     (let e1 = e\<lparr>trace := trace e @ [EvCreateDir p]\<rparr> in
      if p \<in> dirs e then (OK, e1)
      else case mkdir_error e p of
        Some (c, m) \<Rightarrow> (Error c m, e1)
      | None \<Rightarrow> (OK, e1\<lparr>dirs := insert p (dirs e)\<rparr>))"

text \<open>
  \<^verbatim>\<open>env_->NewLogger(fname, &logger)\<close>: a status and a handle. On failure there is no
  handle (the pointer is reset); on success the path names a new, empty file and the
  handle writes to it.
\<close>

definition NewLogger :: "string \<Rightarrow> Env \<Rightarrow> (Status \<times> Logger option) \<times> Env" where
  "NewLogger fname e =
     (let e1 = e\<lparr>opens := Suc (opens e), trace := trace e @ [EvNewLogger fname]\<rparr> in
      case open_plan e (opens e) of
        OpenFails c m \<Rightarrow> ((Error c m, None), e1)
      | Opens sized \<Rightarrow>
          ((OK, Some \<lparr>file_id = fresh e, reports_size = sized, level = INFO_LEVEL\<rparr>),
           e1\<lparr>entries := (entries e)(fname \<mapsto> fresh e),
              contents := (contents e)(fresh e := []),
              fresh := Suc (fresh e)\<rparr>))"

text \<open>
  Modelled from the spec: \<^verbatim>\<open>Logger::kDoNotSupportGetLogFileSize\<close>, the "unsupported"
  sentinel of the size query, is declared outside the file; it is the largest
  \<^verbatim>\<open>size_t\<close>.
\<close>

definition kDoNotSupportGetLogFileSize :: u64 where
  "kDoNotSupportGetLogFileSize = - 1"

text \<open>\<^verbatim>\<open>logger->GetLogFileSize()\<close>: the bytes appended so far, or the sentinel.\<close>

definition GetLogFileSize :: "Logger \<Rightarrow> Env \<Rightarrow> u64" where
  "GetLogFileSize l e =
     (if reports_size l then of_nat (sum_list (map length (contents e (file_id l))))
      else kDoNotSupportGetLogFileSize)"

text \<open>
  \<^verbatim>\<open>logger->Logv(format, args)\<close>: the writer formats the message itself and appends it
  to its file. A message is given by its full formatted text.
\<close>

definition Logger_Logv :: "Logger \<Rightarrow> string \<Rightarrow> Env \<Rightarrow> Env" where
  "Logger_Logv l msg e =
     e\<lparr>contents := (contents e)(file_id l := contents e (file_id l) @ [msg])\<rparr>"

definition SetInfoLogLevel :: "InfoLogLevel \<Rightarrow> Logger \<Rightarrow> Logger" where
  "SetInfoLogLevel lv l = l\<lparr>level := lv\<rparr>"

subsection \<open>Filename policy\<close>

definition digit_char :: "nat \<Rightarrow> char" where
  "digit_char d = char_of (48 + d)"

fun decimal :: "nat \<Rightarrow> string" where
  "decimal n =
     (if n < 10 then [digit_char n] else decimal (n div 10) @ [digit_char (n mod 10)])"

declare decimal.simps [simp del]

text \<open>
  \<^verbatim>\<open>snprintf(buf, sizeof(buf), "%llu", ts)\<close> followed by reading \<open>buf\<close> as a C string:
  the decimal digits of \<open>ts\<close>, cut to what fits in the buffer with its final NUL.
\<close>

definition snprintf_llu :: "nat \<Rightarrow> u64 \<Rightarrow> string" where
  "snprintf_llu bufsize ts = take (bufsize - 1) (decimal (unat ts))"

definition InfoLogFileName :: "string \<Rightarrow> string" where
  "InfoLogFileName log_path = log_path @ ''/LOG''"

definition OldInfoLogFileName :: "string \<Rightarrow> u64 \<Rightarrow> string" where
  "OldInfoLogFileName log_path ts = log_path @ ''/LOG.old.'' @ snprintf_llu 50 ts"

subsection \<open>The rolling sink\<close>

text \<open>
  The fields of \<^verbatim>\<open>AutoRollLogger\<close> that the file uses, named as in the source
  without the final underscore of private members. The class declaration is outside
  the file; \<open>call_NowMicros_every_N_records\<close>, the number of accesses between two
  readings of the clock, is a constant member that the model takes as a field.
\<close>

record AutoRollLogger =
  log_path :: string
  log_fname :: string
  logger :: "Logger option"
  status :: Status
  kMaxLogFileSize :: u64
  kLogFileTimeToRoll :: u64
  headers :: "string list"
  cached_now :: u64
  ctime :: u64
  cached_now_access_count :: u64
  call_NowMicros_every_N_records :: u64

text \<open>What stops a call instead of returning.\<close>

datatype crash = AssertionFailed | NullDereference

text \<open>
  \<^verbatim>\<open>ResetLogger\<close>: the returned status, the sink and the environment afterwards.
  \<^verbatim>\<open>static_cast<uint64_t>(NowMicros() * 1e-6)\<close> is computed in floating point; the
  model takes the conversion from the environment (\<open>seconds_of\<close>) and assumes nothing
  about it.
\<close>

definition ResetLogger ::
    "AutoRollLogger \<Rightarrow> Env \<Rightarrow> crash + Status \<times> AutoRollLogger \<times> Env" where
  "ResetLogger a e =
     (let ((s, l), e1) = NewLogger (log_fname a) e;
          a1 = a\<lparr>status := s, logger := l\<rparr>
      in if \<not> ok (status a1) then Inr (status a1, a1, e1)
         else case logger a1 of
           None \<Rightarrow> Inl NullDereference
         | Some lg \<Rightarrow>
             (let a2 = (if GetLogFileSize lg e1 = kDoNotSupportGetLogFileSize
                        then a1\<lparr>status := NotSupported
                          ''The underlying logger doesn't support GetLogFileSize()''\<rparr>
                        else a1)
              in if ok (status a2)
                 then (let (t, e2) = NowMicros e1;
                           a3 = a2\<lparr>cached_now := seconds_of e2 t\<rparr>;
                           a4 = a3\<lparr>ctime := cached_now a3\<rparr>;
                           a5 = a4\<lparr>cached_now_access_count := 0\<rparr>
                       in Inr (status a5, a5, e2))
                 else Inr (status a2, a2, e1)))"

text \<open>
  \<^verbatim>\<open>RollLogFile\<close>. The \<^verbatim>\<open>do ... while\<close> loop looks for an archived name that is not
  taken; it runs forever when every one of the names is taken, and then the result is
  \<open>None\<close>.
\<close>

partial_function (option) free_old_name :: "Env \<Rightarrow> string \<Rightarrow> u64 \<Rightarrow> string option" where
  "free_old_name e dir now =
     (let old_fname = OldInfoLogFileName dir now in
      if FileExists e old_fname then free_old_name e dir (now + 1)
      else Some old_fname)"

definition RollLogFile :: "AutoRollLogger \<Rightarrow> Env \<Rightarrow> Env option" where
  "RollLogFile a e =
     (let (now, e1) = NowMicros e in
      case free_old_name e1 (log_path a) now of
        None \<Rightarrow> None
      | Some old_fname \<Rightarrow> Some (snd (RenameFile (log_fname a) old_fname e1)))"

text \<open>
  \<^verbatim>\<open>ValistToString\<close>: \<^verbatim>\<open>vsnprintf\<close> into a buffer of \<open>MAXBUFFERSIZE\<close> bytes, read
  back as a C string (up to the first NUL). The formatting itself cannot fail here, so
  \<^verbatim>\<open>assert(count >= 0)\<close> holds.
\<close>

definition MAXBUFFERSIZE :: nat where
  "MAXBUFFERSIZE = 1024"

definition c_str :: "string \<Rightarrow> string" where
  "c_str s = takeWhile (\<lambda>c. c \<noteq> CHR 0x00) s"

definition ValistToString :: "string \<Rightarrow> string" where
  "ValistToString msg = c_str (take (MAXBUFFERSIZE - 1) msg)"

text \<open>\<^verbatim>\<open>LogInternal\<close>: the write through \<open>logger\<close>, with the mutex held.\<close>

definition LogInternal :: "string \<Rightarrow> AutoRollLogger \<Rightarrow> Env \<Rightarrow> crash + Env" where
  "LogInternal msg a e =
     (case logger a of
        None \<Rightarrow> Inl NullDereference
      | Some l \<Rightarrow> Inr (Logger_Logv l msg e))"

text \<open>
  \<^verbatim>\<open>WriteHeaderInfo\<close>: each header is written with the format \<^verbatim>\<open>"%s"\<close> applied to
  \<^verbatim>\<open>header.c_str()\<close>.
\<close>

fun write_headers :: "string list \<Rightarrow> AutoRollLogger \<Rightarrow> Env \<Rightarrow> crash + Env" where
  "write_headers [] a e = Inr e"
| "write_headers (header # hs) a e =
     (case LogInternal (c_str header) a e of
        Inl c \<Rightarrow> Inl c
      | Inr e1 \<Rightarrow> write_headers hs a e1)"

definition WriteHeaderInfo :: "AutoRollLogger \<Rightarrow> Env \<Rightarrow> crash + Env" where
  "WriteHeaderInfo a e = write_headers (headers a) a e"

text \<open>\<^verbatim>\<open>LogExpired\<close>.\<close>

definition LogExpired :: "AutoRollLogger \<Rightarrow> Env \<Rightarrow> bool \<times> AutoRollLogger \<times> Env" where
  "LogExpired a e =
     (let (a1, e1) =
            (if call_NowMicros_every_N_records a \<le> cached_now_access_count a
             then (let (t, e') = NowMicros e
                   in (a\<lparr>cached_now := seconds_of e' t, cached_now_access_count := 0\<rparr>, e'))
             else (a, e));
          a2 = a1\<lparr>cached_now_access_count := cached_now_access_count a1 + 1\<rparr>
      in (ctime a2 + kLogFileTimeToRoll a2 \<le> cached_now a2, a2, e1))"

text \<open>
  The condition of the \<^verbatim>\<open>if\<close> in \<^verbatim>\<open>Logv\<close>, with the short-circuit evaluation of
  \<^verbatim>\<open>&&\<close> and \<^verbatim>\<open>||\<close>: \<open>LogExpired\<close> is called only when the age threshold is positive,
  and the size is asked only when the first disjunct is false.
\<close>

definition roll_condition ::
    "AutoRollLogger \<Rightarrow> Env \<Rightarrow> crash + bool \<times> AutoRollLogger \<times> Env" where
  "roll_condition a e =
     (let (expired, a1, e1) =
            (if 0 < kLogFileTimeToRoll a then LogExpired a e else (False, a, e))
      in if expired then Inr (True, a1, e1)
         else if 0 < kMaxLogFileSize a1
         then (case logger a1 of
                 None \<Rightarrow> Inl NullDereference
               | Some l \<Rightarrow> Inr (kMaxLogFileSize a1 \<le> GetLogFileSize l e1, a1, e1))
         else Inr (False, a1, e1))"

text \<open>
  \<^verbatim>\<open>Logv\<close>. \<open>ndebug\<close> tells whether the build disables \<^verbatim>\<open>assert\<close>. The result is
  \<open>None\<close> when the call does not return, \<open>Inl\<close> when it stops the program, and the new
  sink and environment otherwise.
\<close>

definition pinned_write ::
    "string \<Rightarrow> AutoRollLogger \<Rightarrow> Env \<Rightarrow> (crash + AutoRollLogger \<times> Env) option" where
  "pinned_write msg a e =
     (case logger a of
        None \<Rightarrow> Some (Inl NullDereference)
      | Some l \<Rightarrow> Some (Inr (a, Logger_Logv l msg e)))"

definition Logv ::
    "bool \<Rightarrow> string \<Rightarrow> AutoRollLogger \<Rightarrow> Env \<Rightarrow> (crash + AutoRollLogger \<times> Env) option" where
  "Logv ndebug msg a e =
     (if \<not> ndebug \<and> \<not> ok (status a) then Some (Inl AssertionFailed)
      else case roll_condition a e of
        Inl c \<Rightarrow> Some (Inl c)
      | Inr (roll, a1, e1) \<Rightarrow>
          if roll
          then (case RollLogFile a1 e1 of
                  None \<Rightarrow> None
                | Some e2 \<Rightarrow>
                    (case ResetLogger a1 e2 of
                       Inl c \<Rightarrow> Some (Inl c)
                     | Inr (s, a3, e3) \<Rightarrow>
                         if \<not> ok s then Some (Inr (a3, e3))
                         else (case WriteHeaderInfo a3 e3 of
                                 Inl c \<Rightarrow> Some (Inl c)
                               | Inr e4 \<Rightarrow> pinned_write msg a3 e4)))
          else pinned_write msg a1 e1)"

text \<open>\<^verbatim>\<open>LogHeader\<close>.\<close>

definition LogHeader :: "string \<Rightarrow> AutoRollLogger \<Rightarrow> Env \<Rightarrow> crash + AutoRollLogger \<times> Env" where
  "LogHeader msg a e =
     (let data = ValistToString msg;
          a1 = a\<lparr>headers := headers a @ [data]\<rparr>
      in case logger a1 of
           None \<Rightarrow> Inl NullDereference
         | Some l \<Rightarrow> Inr (a1, Logger_Logv l msg e))"

subsection \<open>The factory\<close>

text \<open>
  The caller's \<^verbatim>\<open>std::shared_ptr<Logger>\<close> holds nothing, a rolling sink or a plain
  writer.
\<close>

datatype handle = Rolling AutoRollLogger | Plain Logger

text \<open>\<^verbatim>\<open>GetStatus\<close>, declared with the class: the stored status.\<close>

definition GetStatus :: "AutoRollLogger \<Rightarrow> Status" where
  "GetStatus a = status a"

text \<open>
  \<^verbatim>\<open>CreateLogger\<close>. The constructor of \<^verbatim>\<open>AutoRollLogger\<close> is defined with the class,
  outside the file, and is a parameter here: it may not return, stop the program, or give
  a sink and the environment it leaves. \<open>lg\<close> is what the caller's pointer holds before
  the call; the result has the returned status and what the pointer holds afterwards.
\<close>

type_synonym constructor =
  "string \<Rightarrow> u64 \<Rightarrow> u64 \<Rightarrow> InfoLogLevel \<Rightarrow> Env \<Rightarrow> (crash + AutoRollLogger \<times> Env) option"

definition CreateLogger ::
    "constructor \<Rightarrow> string \<Rightarrow> handle option \<Rightarrow> Env \<Rightarrow> u64 \<Rightarrow> u64 \<Rightarrow> InfoLogLevel
      \<Rightarrow> (crash + Status \<times> handle option \<times> Env) option" where
  "CreateLogger new_AutoRollLogger dir lg env log_max_size log_file_time_to_roll log_level =
     (let fname = InfoLogFileName dir;
          e1 = snd (CreateDirIfMissing dir env)
      in if 0 < log_file_time_to_roll \<or> 0 < log_max_size
         then (case new_AutoRollLogger dir log_max_size log_file_time_to_roll log_level e1 of
                 None \<Rightarrow> None
               | Some (Inl c) \<Rightarrow> Some (Inl c)
               | Some (Inr (result, e2)) \<Rightarrow>
                   (let s = GetStatus result
                    in if \<not> ok s then Some (Inr (s, lg, e2))
                       else Some (Inr (s, Some (Rolling result), e2))))
         else (let (t, e2) = NowMicros e1;
                   e3 = snd (RenameFile fname (OldInfoLogFileName dir t) e2);
                   ((s, l), e4) = NewLogger fname e3;
                   l1 = (case l of None \<Rightarrow> None
                         | Some w \<Rightarrow> Some (Plain (SetInfoLogLevel log_level w)))
               in Some (Inr (s, l1, e4))))"

text \<open>
  Modelled from the spec: the constructor of the rolling sink, which is not in the
  file. The design says that the sink is created by the factory once the thresholds are
  known and that Initialize opens a writer at the canonical active path; the
  amortization constant \<open>n\<close> is fixed by the class.
\<close>

definition new_AutoRollLogger :: "u64 \<Rightarrow> constructor" where
  "new_AutoRollLogger n dir log_max_size log_file_time_to_roll log_level e =
     (case ResetLogger
        \<lparr>log_path = dir, log_fname = InfoLogFileName dir, logger = None, status = OK,
         kMaxLogFileSize = log_max_size, kLogFileTimeToRoll = log_file_time_to_roll,
         headers = [], cached_now = 0, ctime = 0, cached_now_access_count = 0,
         call_NowMicros_every_N_records = n\<rparr> e of
        Inl c \<Rightarrow> Some (Inl c)
      | Inr (s, r) \<Rightarrow> Some (Inr r))"

subsection \<open>Reading decimal digits back\<close>

definition digit_value :: "char \<Rightarrow> nat" where
  "digit_value c = of_char c - 48"

definition decimal_value :: "string \<Rightarrow> nat" where
  "decimal_value s = foldl (\<lambda>acc c. 10 * acc + digit_value c) 0 s"

subsection \<open>Runs of calls and what is observed of them\<close>

text \<open>The number of \<open>renameFile\<close> calls made so far.\<close>

fun is_rename :: "event \<Rightarrow> bool" where
  "is_rename (EvRename src dst) = True"
| "is_rename (EvCreateDir p) = False"
| "is_rename (EvNewLogger p) = False"

definition renames :: "Env \<Rightarrow> nat" where
  "renames e = length (filter is_rename (trace e))"

text \<open>
  Several calls one after the other; a call that does not return ends the run. The
  third function asks \<open>LogExpired\<close> a number of times.
\<close>

fun Logv_seq ::
    "bool \<Rightarrow> string list \<Rightarrow> AutoRollLogger \<Rightarrow> Env \<Rightarrow> (crash + AutoRollLogger \<times> Env) option" where
  "Logv_seq ndebug [] a e = Some (Inr (a, e))"
| "Logv_seq ndebug (msg # msgs) a e =
     (case Logv ndebug msg a e of
        None \<Rightarrow> None
      | Some (Inl c) \<Rightarrow> Some (Inl c)
      | Some (Inr (a1, e1)) \<Rightarrow> Logv_seq ndebug msgs a1 e1)"

fun LogHeader_seq :: "string list \<Rightarrow> AutoRollLogger \<Rightarrow> Env \<Rightarrow> crash + AutoRollLogger \<times> Env" where
  "LogHeader_seq [] a e = Inr (a, e)"
| "LogHeader_seq (msg # msgs) a e =
     (case LogHeader msg a e of
        Inl c \<Rightarrow> Inl c
      | Inr (a1, e1) \<Rightarrow> LogHeader_seq msgs a1 e1)"

fun LogExpired_times :: "nat \<Rightarrow> AutoRollLogger \<Rightarrow> Env \<Rightarrow> AutoRollLogger \<times> Env" where
  "LogExpired_times 0 a e = (a, e)"
| "LogExpired_times (Suc k) a e =
     LogExpired_times k (fst (snd (LogExpired a e))) (snd (snd (LogExpired a e)))"

text \<open>
  What the owner sees after a call: the stored status and the lines of the file at the
  active path.
\<close>

definition active_file :: "AutoRollLogger \<Rightarrow> Env \<Rightarrow> string list option" where
  "active_file a e = map_option (contents e) (entries e (log_fname a))"

definition seen :: "AutoRollLogger \<times> Env \<Rightarrow> Status \<times> string list option" where
  "seen r = (GetStatus (fst r), active_file (fst r) (snd r))"

definition outcome ::
    "(crash + AutoRollLogger \<times> Env) option \<Rightarrow> (crash + Status \<times> string list option) option" where
  "outcome r = map_option (map_sum id seen) r"

subsection \<open>Example states\<close>

text \<open>
  A sink on the directory \<open>/db\<close> with two retained headers, whose writer is on file 0,
  and an environment where \<open>/db/LOG\<close> is file 0 and two archived names are taken. The
  clock always reads 5 microseconds.
\<close>

definition example_sink :: "u64 \<Rightarrow> u64 \<Rightarrow> AutoRollLogger" where
  "example_sink max_size time_to_roll =
     \<lparr>log_path = ''/db'', log_fname = ''/db/LOG'',
      logger = Some \<lparr>file_id = 0, reports_size = True, level = INFO_LEVEL\<rparr>,
      status = OK, kMaxLogFileSize = max_size, kLogFileTimeToRoll = time_to_roll,
      headers = [''v1'', ''opts''], cached_now = 100, ctime = 30,
      cached_now_access_count = 0, call_NowMicros_every_N_records = 100\<rparr>"

definition example_env :: "open_outcome \<Rightarrow> Env" where
  "example_env oc =
     \<lparr>dirs = {''/db''},
      mkdir_error = (\<lambda>p. None),
      entries = [''/db/LOG'' \<mapsto> 0, ''/db/LOG.old.5'' \<mapsto> 1, ''/db/LOG.old.6'' \<mapsto> 2],
      contents = (\<lambda>i. [])(0 := [''0123456789'']),
      fresh = 3,
      clock = (\<lambda>n. 5),
      reads = 0,
      seconds_of = (\<lambda>t. t div 1000000),
      open_plan = (\<lambda>n. oc),
      opens = 0,
      trace = []\<rparr>"

text \<open>A roll, the re-initialization that follows it, and a second roll.\<close>

definition roll_reset_roll :: "AutoRollLogger \<Rightarrow> Env \<Rightarrow> (crash + Env) option" where
  "roll_reset_roll a e =
     (case RollLogFile a e of
        None \<Rightarrow> None
      | Some e1 \<Rightarrow>
          (case ResetLogger a e1 of
             Inl c \<Rightarrow> Some (Inl c)
           | Inr (s, a2, e2) \<Rightarrow> map_option Inr (RollLogFile a2 e2)))"

section \<open>Properties\<close>

subsection \<open>Decimal rendering\<close>

lemma digit_value_digit_char: "d < 10 \<Longrightarrow> digit_value (digit_char d) = d"
  by (simp add: digit_value_def digit_char_def)

lemma decimal_value_snoc: "decimal_value (s @ [c]) = 10 * decimal_value s + digit_value c"
  by (simp add: decimal_value_def)

lemma decimal_value_decimal: "decimal_value (decimal n) = n"
proof (induction n rule: decimal.induct)
  case (1 n)
  show ?case
  proof (cases "n < 10")
    case True
    then show ?thesis
      by (simp add: decimal.simps [of n] decimal_value_def digit_value_digit_char)
  next
    case False
    with 1 show ?thesis
      by (simp add: decimal.simps [of n] decimal_value_snoc digit_value_digit_char)
  qed
qed

lemma length_decimal: "n < 10 ^ k \<Longrightarrow> 0 < k \<Longrightarrow> length (decimal n) \<le> k"
proof (induction n arbitrary: k rule: decimal.induct)
  case (1 n)
  show ?case
  proof (cases "n < 10")
    case True
    with 1 show ?thesis by (simp add: decimal.simps [of n])
  next
    case False
    with 1(2,3) obtain j where k: "k = Suc j" by (cases k) auto
    with False 1(2) have "0 < j" by (cases j) auto
    moreover from k 1(2) have "n div 10 < 10 ^ j"
      by (simp add: less_mult_imp_div_less mult.commute)
    ultimately have "length (decimal (n div 10)) \<le> j" using 1(1) False by blast
    with False k show ?thesis by (simp add: decimal.simps [of n])
  qed
qed

lemma length_decimal_u64: "length (decimal (unat (ts :: u64))) \<le> 20"
proof -
  have "unat ts < 2 ^ 64" using unsigned_less [of ts] by simp
  also have "(2::nat) ^ 64 < 10 ^ 20" by simp
  finally show ?thesis by (intro length_decimal) simp_all
qed

lemma snprintf_llu_50: "snprintf_llu 50 ts = decimal (unat ts)"
  by (simp add: snprintf_llu_def length_decimal_u64 [THEN le_trans])

lemma decimal_digit: "n < 10 \<Longrightarrow> decimal n = [digit_char n]"
  by (simp add: decimal.simps [of n])

text \<open>
  C9. The two filename functions depend on their arguments only: the active path is the
  directory followed by \<open>/LOG\<close>, and the archived path is the directory followed by
  \<open>/LOG.old.\<close> and the decimal digits of the timestamp. The buffer of 50 bytes never
  cuts the digits of a 64-bit timestamp, and reading the digits back gives the
  timestamp.
\<close>

theorem filename_policy:
  "InfoLogFileName dir = dir @ ''/LOG'' \<and>
   OldInfoLogFileName dir ts = dir @ ''/LOG.old.'' @ decimal (unat ts) \<and>
   decimal_value (decimal (unat ts)) = unat ts"
  by (simp add: InfoLogFileName_def OldInfoLogFileName_def snprintf_llu_50
      decimal_value_decimal)

subsection \<open>The search for a free archived name\<close>

lemma free_old_name_free:
  "\<not> FileExists e (OldInfoLogFileName dir now) \<Longrightarrow>
   free_old_name e dir now = Some (OldInfoLogFileName dir now)"
  by (subst free_old_name.simps) simp

lemma free_old_name_taken:
  "FileExists e (OldInfoLogFileName dir now) \<Longrightarrow>
   free_old_name e dir now = free_old_name e dir (now + 1)"
  by (subst free_old_name.simps) simp

lemma free_old_name_first:
  "\<forall>j<k. FileExists e (OldInfoLogFileName dir (now + of_nat j)) \<Longrightarrow>
   \<not> FileExists e (OldInfoLogFileName dir (now + of_nat k)) \<Longrightarrow>
   free_old_name e dir now = Some (OldInfoLogFileName dir (now + of_nat k))"
proof (induction k arbitrary: now)
  case 0
  then show ?case by (simp add: free_old_name_free)
next
  case (Suc k)
  from Suc.prems(1) have taken: "FileExists e (OldInfoLogFileName dir now)"
    using Suc.prems(1) [rule_format, of 0] by simp
  have "\<forall>j<k. FileExists e (OldInfoLogFileName dir (now + 1 + of_nat j))"
  proof (intro allI impI)
    fix j assume "j < k"
    then have "FileExists e (OldInfoLogFileName dir (now + of_nat (Suc j)))"
      using Suc.prems(1) [rule_format, of "Suc j"] by simp
    then show "FileExists e (OldInfoLogFileName dir (now + 1 + of_nat j))"
      by (simp add: add.assoc)
  qed
  moreover have "\<not> FileExists e (OldInfoLogFileName dir (now + 1 + of_nat k))"
    using Suc.prems(2) by (simp add: add.assoc)
  ultimately have "free_old_name e dir (now + 1) =
      Some (OldInfoLogFileName dir (now + 1 + of_nat k))"
    by (rule Suc.IH)
  with taken show ?case by (simp add: free_old_name_taken add.assoc)
qed

lemma free_old_name_Some:
  assumes "free_old_name e dir now = Some r"
  shows "\<not> FileExists e r"
  using assms
  by (rule free_old_name.raw_induct [rotated 1, where P = "\<lambda>e dir now r. \<not> FileExists e r"])
    (auto simp: Let_def split: if_splits)

subsection \<open>Effects of the environment calls\<close>

lemma digit_char_eval:
  "digit_char 0 = CHR ''0''" "digit_char 1 = CHR ''1''" "digit_char 2 = CHR ''2''"
  "digit_char 3 = CHR ''3''" "digit_char 4 = CHR ''4''" "digit_char 5 = CHR ''5''"
  "digit_char 6 = CHR ''6''" "digit_char 7 = CHR ''7''" "digit_char 8 = CHR ''8''"
  "digit_char 9 = CHR ''9''"
  unfolding digit_char_def by code_simp+

lemma OldInfoLogFileName_digit:
  "ts < 10 \<Longrightarrow> OldInfoLogFileName dir ts = dir @ ''/LOG.old.'' @ [digit_char (unat ts)]"
  by (simp add: OldInfoLogFileName_def snprintf_llu_def decimal_digit word_less_nat_alt)

lemma example_names:
  "OldInfoLogFileName ''/db'' 5 = ''/db/LOG.old.5''"
  "OldInfoLogFileName ''/db'' 6 = ''/db/LOG.old.6''"
  "OldInfoLogFileName ''/db'' 7 = ''/db/LOG.old.7''"
  "OldInfoLogFileName ''/db'' 8 = ''/db/LOG.old.8''"
  by (simp_all add: OldInfoLogFileName_digit digit_char_eval)

lemma RenameFile_trace [simp]:
  "trace (snd (RenameFile src dst e)) = trace e @ [EvRename src dst]"
  by (simp add: RenameFile_def Let_def split: option.split)

lemma RenameFile_entries:
  "entries (snd (RenameFile src dst e)) =
     (case entries e src of None \<Rightarrow> entries e | Some i \<Rightarrow> ((entries e)(src := None))(dst \<mapsto> i))"
  by (simp add: RenameFile_def Let_def split: option.split)

lemma RenameFile_other [simp]:
  "contents (snd (RenameFile src dst e)) = contents e"
  "reads (snd (RenameFile src dst e)) = reads e"
  "clock (snd (RenameFile src dst e)) = clock e"
  "opens (snd (RenameFile src dst e)) = opens e"
  "open_plan (snd (RenameFile src dst e)) = open_plan e"
  "seconds_of (snd (RenameFile src dst e)) = seconds_of e"
  "fresh (snd (RenameFile src dst e)) = fresh e"
  "dirs (snd (RenameFile src dst e)) = dirs e"
  by (simp_all add: RenameFile_def Let_def split: option.split)

lemma FileExists_reads [simp]: "FileExists (e\<lparr>reads := n\<rparr>) p = FileExists e p"
  by (simp add: FileExists_def)

lemma free_old_name_reads [simp]:
  "free_old_name (e\<lparr>reads := n\<rparr>) dir now = free_old_name e dir now"
proof (cases "free_old_name e dir now")
  case None
  show ?thesis
  proof (cases "free_old_name (e\<lparr>reads := n\<rparr>) dir now")
    case None
    with \<open>free_old_name e dir now = None\<close> show ?thesis by simp
  next
    case (Some r)
    then have "free_old_name e dir now = Some r"
      by (rule free_old_name.raw_induct [rotated 1,
            where P = "\<lambda>e' dir now r. e' = e\<lparr>reads := n\<rparr> \<longrightarrow> free_old_name e dir now = Some r", rule_format])
        (auto simp: Let_def free_old_name_free free_old_name_taken split: if_splits)
    with None show ?thesis by simp
  qed
next
  case (Some r)
  then have "free_old_name (e\<lparr>reads := n\<rparr>) dir now = Some r"
    by (rule free_old_name.raw_induct [rotated 1,
          where P = "\<lambda>e' dir now r. e' = e \<longrightarrow> free_old_name (e\<lparr>reads := n\<rparr>) dir now = Some r", rule_format])
      (auto simp: Let_def free_old_name_free free_old_name_taken split: if_splits)
  with Some show ?thesis by simp
qed

lemma RollLogFile_eq:
  "RollLogFile a e =
     (case free_old_name e (log_path a) (clock e (reads e)) of
        None \<Rightarrow> None
      | Some old_fname \<Rightarrow>
          Some (snd (RenameFile (log_fname a) old_fname (e\<lparr>reads := Suc (reads e)\<rparr>))))"
  by (simp add: RollLogFile_def NowMicros_def)

lemma NewLogger_fields [simp]:
  "trace (snd (NewLogger fname e)) = trace e @ [EvNewLogger fname]"
  "opens (snd (NewLogger fname e)) = Suc (opens e)"
  "reads (snd (NewLogger fname e)) = reads e"
  "clock (snd (NewLogger fname e)) = clock e"
  "open_plan (snd (NewLogger fname e)) = open_plan e"
  "seconds_of (snd (NewLogger fname e)) = seconds_of e"
  "dirs (snd (NewLogger fname e)) = dirs e"
  by (simp_all add: NewLogger_def Let_def split: open_outcome.split)

lemma NewLogger_keeps_files:
  "FileExists e p \<Longrightarrow> FileExists (snd (NewLogger fname e)) p"
  by (simp add: NewLogger_def Let_def FileExists_def split: open_outcome.split)

lemma ResetLogger_fails:
  "open_plan e (opens e) = OpenFails c m \<Longrightarrow>
   ResetLogger a e =
     Inr (Error c m, a\<lparr>status := Error c m, logger := None\<rparr>, snd (NewLogger (log_fname a) e))"
  by (simp add: ResetLogger_def NewLogger_def ok_def)

lemma ResetLogger_unsized:
  "open_plan e (opens e) = Opens False \<Longrightarrow>
   ResetLogger a e =
     Inr (NotSupported ''The underlying logger doesn't support GetLogFileSize()'',
          a\<lparr>status := NotSupported ''The underlying logger doesn't support GetLogFileSize()'',
            logger := Some \<lparr>file_id = fresh e, reports_size = False, level = INFO_LEVEL\<rparr>\<rparr>,
          snd (NewLogger (log_fname a) e))"
  by (simp add: ResetLogger_def NewLogger_def ok_def GetLogFileSize_def NotSupported_def)

lemma ResetLogger_sized:
  "open_plan e (opens e) = Opens True \<Longrightarrow>
   ResetLogger a e =
     Inr (OK,
          a\<lparr>status := OK,
            logger := Some \<lparr>file_id = fresh e, reports_size = True, level = INFO_LEVEL\<rparr>,
            cached_now := seconds_of e (clock e (reads e)),
            ctime := seconds_of e (clock e (reads e)),
            cached_now_access_count := 0\<rparr>,
          (snd (NewLogger (log_fname a) e))\<lparr>reads := Suc (reads e)\<rparr>)"
  by (simp add: ResetLogger_def NewLogger_def ok_def GetLogFileSize_def NotSupported_def
     kDoNotSupportGetLogFileSize_def NowMicros_def)

lemma ResetLogger_cases:
  obtains (fails) c m where "open_plan e (opens e) = OpenFails c m"
    | (unsized) "open_plan e (opens e) = Opens False"
    | (sized) "open_plan e (opens e) = Opens True"
  by (cases "open_plan e (opens e)") auto

lemma ResetLogger_keeps:
  assumes "ResetLogger a e = Inr (s, a2, e2)"
  shows "log_path a2 = log_path a \<and> log_fname a2 = log_fname a \<and>
         (FileExists e p \<longrightarrow> FileExists e2 p)"
proof (cases rule: ResetLogger_cases [of e])
  case (fails c m)
  with assms show ?thesis by (auto simp: ResetLogger_fails NewLogger_keeps_files)
next
  case unsized
  with assms show ?thesis by (auto simp: ResetLogger_unsized NewLogger_keeps_files)
next
  case sized
  with assms show ?thesis
    using NewLogger_keeps_files [of e p "log_fname a"]
    by (auto simp: ResetLogger_sized FileExists_def)
qed

lemma RollLogFile_Some:
  assumes "RollLogFile a e = Some e1" and "trace e1 = trace e @ [EvRename src dst]"
  shows "\<not> FileExists e dst"
proof -
  from assms(1) obtain r where r: "free_old_name e (log_path a) (clock e (reads e)) = Some r"
    and e1: "e1 = snd (RenameFile (log_fname a) r (e\<lparr>reads := Suc (reads e)\<rparr>))"
    by (auto simp: RollLogFile_eq split: option.splits)
  from e1 assms(2) have "dst = r" by simp
  with r show ?thesis by (simp add: free_old_name_Some)
qed

text \<open>
  C4. When the archived names for the timestamps \<open>now\<close>, \<open>now + 1\<close>, ...,
  \<open>now + k - 1\<close> are taken and the one for \<open>now + k\<close> is free, \<open>RollLogFile\<close>
  returns, having asked for exactly one rename, of the active file to the name for
  \<open>now + k\<close>, which then names the file that was active. A second roll after the
  re-initialization, whatever the clock reads then, archives under a different name,
  provided that there was an active file to archive.
\<close>

theorem RollLogFile_first_free_name:
  assumes taken: "\<forall>j<k. FileExists e
            (OldInfoLogFileName (log_path a) (clock e (reads e) + of_nat j))"
      and free: "\<not> FileExists e
            (OldInfoLogFileName (log_path a) (clock e (reads e) + of_nat k))"
  shows "\<exists>e1. RollLogFile a e = Some e1 \<and>
           trace e1 = trace e @
             [EvRename (log_fname a)
                (OldInfoLogFileName (log_path a) (clock e (reads e) + of_nat k))] \<and>
           (\<forall>i. entries e (log_fname a) = Some i \<longrightarrow>
              entries e1 (OldInfoLogFileName (log_path a) (clock e (reads e) + of_nat k))
                = Some i) \<and>
           (\<forall>s a2 e2 e3 src dst.
              entries e (log_fname a) \<noteq> None \<and>
              ResetLogger a e1 = Inr (s, a2, e2) \<and>
              RollLogFile a2 e2 = Some e3 \<and>
              trace e3 = trace e2 @ [EvRename src dst] \<longrightarrow>
              dst \<noteq> OldInfoLogFileName (log_path a) (clock e (reads e) + of_nat k))"
proof -
  let ?old = "OldInfoLogFileName (log_path a) (clock e (reads e) + of_nat k)"
  let ?e1 = "snd (RenameFile (log_fname a) ?old (e\<lparr>reads := Suc (reads e)\<rparr>))"
  from taken free have name: "free_old_name e (log_path a) (clock e (reads e)) = Some ?old"
    by (rule free_old_name_first)
  then have roll: "RollLogFile a e = Some ?e1"
    by (simp add: RollLogFile_eq)
  have tr: "trace ?e1 = trace e @ [EvRename (log_fname a) ?old]"
    by simp
  have moved: "entries ?e1 ?old = Some i" if "entries e (log_fname a) = Some i" for i
    using that by (simp add: RenameFile_entries)
  have distinct: "dst \<noteq> ?old"
    if active: "entries e (log_fname a) \<noteq> None"
      and reset: "ResetLogger a ?e1 = Inr (s, a2, e2)"
      and again: "RollLogFile a2 e2 = Some e3"
      and tr3: "trace e3 = trace e2 @ [EvRename src dst]"
    for s a2 e2 e3 src dst
  proof -
    from active obtain i where "entries e (log_fname a) = Some i" by auto
    then have "FileExists ?e1 ?old" using moved by (simp add: FileExists_def)
    with reset have "FileExists e2 ?old" using ResetLogger_keeps by blast
    moreover from again tr3 have "\<not> FileExists e2 dst" by (rule RollLogFile_Some)
    ultimately show ?thesis by auto
  qed
  from roll tr moved distinct show ?thesis by blast
qed

lemma NewLogger_entries:
  "entries (snd (NewLogger fname e)) =
     (case open_plan e (opens e) of
        OpenFails c m \<Rightarrow> entries e
      | Opens sized \<Rightarrow> (entries e)(fname \<mapsto> fresh e))"
  by (simp add: NewLogger_def Let_def split: open_outcome.split)

lemma NewLogger_contents:
  "contents (snd (NewLogger fname e)) =
     (case open_plan e (opens e) of
        OpenFails c m \<Rightarrow> contents e
      | Opens sized \<Rightarrow> (contents e)(fresh e := []))"
  by (simp add: NewLogger_def Let_def split: open_outcome.split)

lemma NewLogger_fresh:
  "fresh (snd (NewLogger fname e)) =
     (case open_plan e (opens e) of
        OpenFails c m \<Rightarrow> fresh e
      | Opens sized \<Rightarrow> Suc (fresh e))"
  by (simp add: NewLogger_def Let_def split: open_outcome.split)

lemma less_2_cases_nat: "(\<forall>j<2. P (j::nat)) = (P 0 \<and> P 1)"
  by (auto simp: less_2_cases_iff)

lemma less_3_cases_nat: "(\<forall>j<3. P (j::nat)) = (P 0 \<and> P 1 \<and> P 2)"
proof -
  have "j < 3 \<longleftrightarrow> j = 0 \<or> j = 1 \<or> j = 2" for j :: nat by arith
  then show ?thesis by auto
qed

theorem RollLogFile_first_free_name_witness:
  "FileExists (example_env (Opens True)) (OldInfoLogFileName ''/db'' 5) \<and>
   FileExists (example_env (Opens True)) (OldInfoLogFileName ''/db'' (5 + 1)) \<and>
   \<not> FileExists (example_env (Opens True)) (OldInfoLogFileName ''/db'' (5 + 2)) \<and>
   map_option trace (RollLogFile (example_sink 10 0) (example_env (Opens True))) =
     Some [EvRename ''/db/LOG'' ''/db/LOG.old.7''] \<and>
   map_option (map_sum id trace)
     (roll_reset_roll (example_sink 10 0) (example_env (Opens True))) =
     Some (Inr [EvRename ''/db/LOG'' ''/db/LOG.old.7'', EvNewLogger ''/db/LOG'',
                EvRename ''/db/LOG'' ''/db/LOG.old.8''])"
proof -
  let ?e = "example_env (Opens True)" and ?a = "example_sink 10 0"
  have [simp]: "log_path ?a = ''/db''" "log_fname ?a = ''/db/LOG''"
    by (simp_all add: example_sink_def)
  have [simp]: "clock ?e = (\<lambda>n. 5)" "trace ?e = []" "reads ?e = 0" "opens ?e = 0"
    "open_plan ?e = (\<lambda>n. Opens True)"
    "entries ?e = [''/db/LOG'' \<mapsto> 0, ''/db/LOG.old.5'' \<mapsto> 1, ''/db/LOG.old.6'' \<mapsto> 2]"
    by (simp_all add: example_env_def)
  have taken: "\<forall>j<2. FileExists ?e (OldInfoLogFileName (log_path ?a) (clock ?e (reads ?e) + of_nat j))"
    by (simp add: less_2_cases_nat example_names FileExists_def)
  have free: "\<not> FileExists ?e (OldInfoLogFileName (log_path ?a) (clock ?e (reads ?e) + of_nat 2))"
    by (simp add: example_names FileExists_def)
  from RollLogFile_first_free_name [of 2 ?e ?a, OF taken free]
  obtain e1 where roll: "RollLogFile ?a ?e = Some e1"
    and tr1: "trace e1 = [EvRename ''/db/LOG'' ''/db/LOG.old.7'']"
    and ent1: "entries e1 ''/db/LOG.old.7'' = Some 0"
    and distinct: "\<And>s a2 e2 e3 src dst.
      ResetLogger ?a e1 = Inr (s, a2, e2) \<Longrightarrow> RollLogFile a2 e2 = Some e3 \<Longrightarrow>
      trace e3 = trace e2 @ [EvRename src dst] \<Longrightarrow> dst \<noteq> ''/db/LOG.old.7''"
    by (auto simp: example_names)
  from roll have e1: "e1 = snd (RenameFile ''/db/LOG'' ''/db/LOG.old.7'' (?e\<lparr>reads := Suc 0\<rparr>))"
    using free_old_name_first [OF taken free] by (simp add: RollLogFile_eq example_names)
  have plan1: "open_plan e1 (opens e1) = Opens True" by (simp add: e1)
  let ?a2 = "?a\<lparr>status := OK,
            logger := Some \<lparr>file_id = fresh e1, reports_size = True, level = INFO_LEVEL\<rparr>,
            cached_now := seconds_of e1 (clock e1 (reads e1)),
            ctime := seconds_of e1 (clock e1 (reads e1)),
            cached_now_access_count := 0\<rparr>"
  let ?e2 = "(snd (NewLogger (log_fname ?a) e1))\<lparr>reads := Suc (reads e1)\<rparr>"
  have reset: "ResetLogger ?a e1 = Inr (OK, ?a2, ?e2)"
    using plan1 by (rule ResetLogger_sized)
  have taken2: "\<forall>j<3. FileExists ?e2
      (OldInfoLogFileName (log_path ?a2) (clock ?e2 (reads ?e2) + of_nat j))"
    by (simp add: less_3_cases_nat FileExists_def e1 NewLogger_entries RenameFile_entries
        example_names)
  have free2: "\<not> FileExists ?e2
      (OldInfoLogFileName (log_path ?a2) (clock ?e2 (reads ?e2) + of_nat 3))"
    by (simp add: FileExists_def e1 NewLogger_entries RenameFile_entries example_names)
  from RollLogFile_first_free_name [of 3 ?e2 ?a2, OF taken2 free2]
  obtain e3 where roll2: "RollLogFile ?a2 ?e2 = Some e3"
    and tr3: "trace e3 = trace ?e2 @ [EvRename ''/db/LOG'' ''/db/LOG.old.8'']"
    by (auto simp: example_names e1)
  have "map_option (map_sum id trace) (roll_reset_roll ?a ?e) =
     Some (Inr [EvRename ''/db/LOG'' ''/db/LOG.old.7'', EvNewLogger ''/db/LOG'',
                EvRename ''/db/LOG'' ''/db/LOG.old.8''])"
    using roll reset roll2 tr3 tr1 by (simp add: roll_reset_roll_def)
  with taken free roll tr1 show ?thesis by (simp add: less_2_cases_nat)
qed

subsection \<open>Initialization\<close>

text \<open>
  C5, as amended. When the writer is opened, \<open>ResetLogger\<close> returns the Unsupported
  error exactly when the writer cannot report its file size, whatever the size
  threshold is (the threshold is not looked at). On success it records the current
  time as the epoch start and as the cached now, and resets the access counter; with
  the Unsupported error it leaves them as they were.
\<close>

theorem ResetLogger_unsupported:
  assumes "open_plan e (opens e) = Opens sized"
  shows "\<exists>a' e'. ResetLogger a e = Inr (status a', a', e') \<and>
     (status a' = NotSupported ''The underlying logger doesn't support GetLogFileSize()'')
       = (\<not> sized) \<and>
     ok (status a') = sized \<and>
     logger a' = Some \<lparr>file_id = fresh e, reports_size = sized, level = INFO_LEVEL\<rparr> \<and>
     (sized \<longrightarrow>
        ctime a' = seconds_of e (clock e (reads e)) \<and> cached_now a' = ctime a' \<and>
        cached_now_access_count a' = 0 \<and> reads e' = Suc (reads e)) \<and>
     (\<not> sized \<longrightarrow>
        ctime a' = ctime a \<and> cached_now a' = cached_now a \<and>
        cached_now_access_count a' = cached_now_access_count a \<and> reads e' = reads e)"
proof (cases sized)
  case True
  with assms show ?thesis
    by (simp add: ResetLogger_sized ok_def NotSupported_def)
next
  case False
  with assms show ?thesis
    by (simp add: ResetLogger_unsized ok_def NotSupported_def)
qed

theorem ResetLogger_unsupported_witness:
  "open_plan (example_env (Opens True)) (opens (example_env (Opens True))) = Opens True \<and>
   (\<exists>a' e'. ResetLogger (example_sink 0 60) (example_env (Opens True)) = Inr (OK, a', e') \<and>
      ctime (example_sink 0 60) = 30 \<and> ctime a' = 0 \<and> cached_now a' = 0 \<and>
      cached_now_access_count a' = 0 \<and> reads e' = 1)"
proof -
  have plan: "open_plan (example_env (Opens True)) (opens (example_env (Opens True))) = Opens True"
    by (simp add: example_env_def)
  from ResetLogger_unsupported [OF plan, of "example_sink 0 60"] plan show ?thesis
    by (auto simp: example_env_def example_sink_def ok_def)
qed

text \<open>
  C5 as stated fails: a sink with an age threshold only (size threshold 0) whose writer
  cannot report its size is refused with the Unsupported error.
\<close>

theorem ResetLogger_age_only_counterexample:
  "kMaxLogFileSize (example_sink 0 60) = 0 \<and>
   open_plan (example_env (Opens False)) (opens (example_env (Opens False))) = Opens False \<and>
   map_sum id fst (ResetLogger (example_sink 0 60) (example_env (Opens False))) =
     Inr (NotSupported ''The underlying logger doesn't support GetLogFileSize()'')"
  by (simp add: ResetLogger_unsized example_env_def example_sink_def)

subsection \<open>Headers\<close>

lemma LogHeader_Some:
  "logger a = Some l \<Longrightarrow>
   LogHeader msg a e = Inr (a\<lparr>headers := headers a @ [ValistToString msg]\<rparr>, Logger_Logv l msg e)"
  by (simp add: LogHeader_def Let_def)

lemma LogHeader_seq_Some:
  "logger a = Some l \<Longrightarrow>
   LogHeader_seq msgs a e =
     Inr (a\<lparr>headers := headers a @ map ValistToString msgs\<rparr>,
          e\<lparr>contents := (contents e)(file_id l := contents e (file_id l) @ msgs)\<rparr>)"
proof (induction msgs arbitrary: a e)
  case Nil
  then show ?case by simp
next
  case (Cons msg msgs)
  then show ?case by (simp add: LogHeader_Some Logger_Logv_def cong: if_cong)
qed

text \<open>
  C10. \<open>LogHeader\<close> appends the eagerly formatted string to the retained headers and
  hands the message to the current writer, and does nothing else: after any number of
  header calls the writer handle, the epoch start, the cached now and its access counter
  and the stored status are as before, no rename and no open was asked for, and the
  clock was not read. The lines pile up in the current file, so the file can pass the
  size threshold without a roll.
\<close>

theorem LogHeader_never_rolls:
  assumes "logger a = Some l"
  shows "LogHeader msg a e =
           Inr (a\<lparr>headers := headers a @ [ValistToString msg]\<rparr>, Logger_Logv l msg e) \<and>
         (\<exists>a' e'. LogHeader_seq msgs a e = Inr (a', e') \<and>
            headers a' = headers a @ map ValistToString msgs \<and>
            logger a' = logger a \<and> ctime a' = ctime a \<and>
            cached_now a' = cached_now a \<and>
            cached_now_access_count a' = cached_now_access_count a \<and>
            status a' = status a \<and>
            contents e' (file_id l) = contents e (file_id l) @ msgs \<and>
            entries e' = entries e \<and> trace e' = trace e \<and> renames e' = renames e \<and>
            reads e' = reads e \<and> opens e' = opens e)"
  using assms by (simp add: LogHeader_Some LogHeader_seq_Some renames_def)

theorem LogHeader_never_rolls_witness:
  "logger (example_sink 10 0) = Some \<lparr>file_id = 0, reports_size = True, level = INFO_LEVEL\<rparr> \<and>
   map_sum id fst (roll_condition (example_sink 10 0) (example_env (Opens True))) = Inr True \<and>
   (\<exists>a' e'. LogHeader_seq [''build 7'', ''options''] (example_sink 10 0) (example_env (Opens True))
        = Inr (a', e') \<and>
      headers a' = [''v1'', ''opts'', ''build 7'', ''options''] \<and>
      contents e' 0 = [''0123456789'', ''build 7'', ''options''] \<and>
      trace e' = [] \<and>
      map_sum id fst (roll_condition a' e') = Inr True)"
proof -
  let ?a = "example_sink 10 0" and ?e = "example_env (Opens True)"
  have lg: "logger ?a = Some \<lparr>file_id = 0, reports_size = True, level = INFO_LEVEL\<rparr>"
    by (simp add: example_sink_def)
  have before: "map_sum id fst (roll_condition ?a ?e) = Inr True"
    by (simp add: roll_condition_def example_sink_def example_env_def GetLogFileSize_def)
  from LogHeader_never_rolls [OF lg, of "''x''" ?e "[''build 7'', ''options'']"]
  obtain a' e' where run: "LogHeader_seq [''build 7'', ''options''] ?a ?e = Inr (a', e')"
    and h: "headers a' = headers ?a @ map ValistToString [''build 7'', ''options'']"
    and l: "logger a' = logger ?a"
    and c: "contents e' 0 = contents ?e 0 @ [''build 7'', ''options'']"
    and t: "trace e' = trace ?e"
    and k: "kMaxLogFileSize a' = kMaxLogFileSize ?a" "kLogFileTimeToRoll a' = kLogFileTimeToRoll ?a"
    by (auto simp: LogHeader_seq_Some [OF lg])
  have "map_sum id fst (roll_condition a' e') = Inr True"
    using l c k by (simp add: roll_condition_def example_sink_def example_env_def GetLogFileSize_def)
  moreover have "headers a' = [''v1'', ''opts'', ''build 7'', ''options'']"
    using h by (simp add: example_sink_def ValistToString_def c_str_def MAXBUFFERSIZE_def)
  moreover have "contents e' 0 = [''0123456789'', ''build 7'', ''options'']"
    using c by (simp add: example_env_def)
  moreover have "trace e' = []" using t by (simp add: example_env_def)
  ultimately show ?thesis using lg before run by simp
qed

subsection \<open>The roll condition\<close>

lemma LogExpired_refresh:
  "call_NowMicros_every_N_records a \<le> cached_now_access_count a \<Longrightarrow>
   LogExpired a e =
     (ctime a + kLogFileTimeToRoll a \<le> seconds_of e (clock e (reads e)),
      a\<lparr>cached_now := seconds_of e (clock e (reads e)), cached_now_access_count := 1\<rparr>,
      e\<lparr>reads := Suc (reads e)\<rparr>)"
  by (simp add: LogExpired_def NowMicros_def)

lemma LogExpired_cached:
  "\<not> call_NowMicros_every_N_records a \<le> cached_now_access_count a \<Longrightarrow>
   LogExpired a e =
     (ctime a + kLogFileTimeToRoll a \<le> cached_now a,
      a\<lparr>cached_now_access_count := cached_now_access_count a + 1\<rparr>, e)"
  by (simp add: LogExpired_def)

lemma LogExpired_keeps:
  "logger (fst (snd (LogExpired a e))) = logger a"
  "kMaxLogFileSize (fst (snd (LogExpired a e))) = kMaxLogFileSize a"
  "kLogFileTimeToRoll (fst (snd (LogExpired a e))) = kLogFileTimeToRoll a"
  "headers (fst (snd (LogExpired a e))) = headers a"
  "log_path (fst (snd (LogExpired a e))) = log_path a"
  "log_fname (fst (snd (LogExpired a e))) = log_fname a"
  "status (fst (snd (LogExpired a e))) = status a"
  "trace (snd (snd (LogExpired a e))) = trace e"
  "contents (snd (snd (LogExpired a e))) = contents e"
  "entries (snd (snd (LogExpired a e))) = entries e"
  "opens (snd (snd (LogExpired a e))) = opens e"
  "open_plan (snd (snd (LogExpired a e))) = open_plan e"
  "fresh (snd (snd (LogExpired a e))) = fresh e"
  by (cases "call_NowMicros_every_N_records a \<le> cached_now_access_count a";
      simp add: LogExpired_refresh LogExpired_cached)+

lemma of_nat_less_u64:
  "j < unat (n :: u64) \<Longrightarrow> \<not> n \<le> of_nat j"
proof -
  assume j: "j < unat n"
  have "unat n < 2 ^ 64" using unsigned_less [of n] by simp
  with j have "unat (of_nat j :: u64) = j" by (simp add: unat_of_nat)
  with j show ?thesis by (simp add: word_le_nat_alt)
qed

lemma LogExpired_times_cached:
  "cached_now_access_count a = of_nat j \<Longrightarrow> j + k \<le> unat (call_NowMicros_every_N_records a) \<Longrightarrow>
   LogExpired_times k a e = (a\<lparr>cached_now_access_count := of_nat (j + k)\<rparr>, e)"
proof (induction k arbitrary: a j)
  case 0
  then show ?case by simp
next
  case (Suc k)
  from Suc.prems have "j < unat (call_NowMicros_every_N_records a)" by simp
  then have no: "\<not> call_NowMicros_every_N_records a \<le> cached_now_access_count a"
    using Suc.prems(1) by (simp add: of_nat_less_u64)
  let ?a1 = "a\<lparr>cached_now_access_count := cached_now_access_count a + 1\<rparr>"
  have "LogExpired_times k ?a1 e = (?a1\<lparr>cached_now_access_count := of_nat (Suc j + k)\<rparr>, e)"
    using Suc.prems by (intro Suc.IH) simp_all
  with no show ?case by (simp add: LogExpired_cached)
qed

lemma GetLogFileSize_cong:
  "contents e1 = contents e \<Longrightarrow> GetLogFileSize l e1 = GetLogFileSize l e"
  by (simp add: GetLogFileSize_def)

lemma roll_condition_eq:
  "roll_condition a e =
     (let a1 = (if 0 < kLogFileTimeToRoll a then fst (snd (LogExpired a e)) else a);
          e1 = (if 0 < kLogFileTimeToRoll a then snd (snd (LogExpired a e)) else e)
      in if 0 < kLogFileTimeToRoll a \<and> fst (LogExpired a e) then Inr (True, a1, e1)
         else if 0 < kMaxLogFileSize a
         then (case logger a of
                 None \<Rightarrow> Inl NullDereference
               | Some l \<Rightarrow> Inr (kMaxLogFileSize a \<le> GetLogFileSize l e, a1, e1))
         else Inr (False, a1, e1))"
  by (simp add: roll_condition_def case_prod_beta Let_def LogExpired_keeps
      GetLogFileSize_cong [OF LogExpired_keeps(9)] split: option.split)

lemma roll_condition_Inr:
  assumes "roll_condition a e = Inr (b, a1, e1)"
  shows "b = ((0 < kLogFileTimeToRoll a \<and> fst (LogExpired a e)) \<or>
              (0 < kMaxLogFileSize a \<and>
               (\<exists>l. logger a = Some l \<and> kMaxLogFileSize a \<le> GetLogFileSize l e)))"
    and "a1 = (if 0 < kLogFileTimeToRoll a then fst (snd (LogExpired a e)) else a)"
    and "e1 = (if 0 < kLogFileTimeToRoll a then snd (snd (LogExpired a e)) else e)"
  using assms
  by (auto simp: roll_condition_eq Let_def split: if_splits option.splits)

lemma roll_condition_keeps:
  assumes "roll_condition a e = Inr (b, a1, e1)"
  shows "logger a1 = logger a" "kMaxLogFileSize a1 = kMaxLogFileSize a"
    "kLogFileTimeToRoll a1 = kLogFileTimeToRoll a" "headers a1 = headers a"
    "log_path a1 = log_path a" "log_fname a1 = log_fname a" "status a1 = status a"
    "trace e1 = trace e" "contents e1 = contents e" "entries e1 = entries e"
    "opens e1 = opens e" "open_plan e1 = open_plan e" "fresh e1 = fresh e"
proof -
  from roll_condition_Inr(2,3) [OF assms]
  show "logger a1 = logger a" "kMaxLogFileSize a1 = kMaxLogFileSize a"
    "kLogFileTimeToRoll a1 = kLogFileTimeToRoll a" "headers a1 = headers a"
    "log_path a1 = log_path a" "log_fname a1 = log_fname a" "status a1 = status a"
    "trace e1 = trace e" "contents e1 = contents e" "entries e1 = entries e"
    "opens e1 = opens e" "open_plan e1 = open_plan e" "fresh e1 = fresh e"
    by (simp_all add: LogExpired_keeps)
qed

lemma write_headers_Some:
  "logger a = Some l \<Longrightarrow>
   write_headers hs a e =
     Inr (e\<lparr>contents := (contents e)(file_id l := contents e (file_id l) @ map c_str hs)\<rparr>)"
proof (induction hs arbitrary: e)
  case Nil
  then show ?case by simp
next
  case (Cons h hs)
  then show ?case by (simp add: LogInternal_def Logger_Logv_def cong: if_cong)
qed

lemma Logv_stay:
  "ndebug \<or> ok (status a) \<Longrightarrow> roll_condition a e = Inr (False, a1, e1) \<Longrightarrow>
   logger a1 = Some l \<Longrightarrow>
   Logv ndebug msg a e = Some (Inr (a1, Logger_Logv l msg e1))"
  by (auto simp: Logv_def pinned_write_def)

lemma Logv_dropped:
  "ndebug \<or> ok (status a) \<Longrightarrow> roll_condition a e = Inr (True, a1, e1) \<Longrightarrow>
   RollLogFile a1 e1 = Some e2 \<Longrightarrow> ResetLogger a1 e2 = Inr (s, a3, e3) \<Longrightarrow> \<not> ok s \<Longrightarrow>
   Logv ndebug msg a e = Some (Inr (a3, e3))"
  by (auto simp: Logv_def)

lemma Logv_rolled:
  "ndebug \<or> ok (status a) \<Longrightarrow> roll_condition a e = Inr (True, a1, e1) \<Longrightarrow>
   RollLogFile a1 e1 = Some e2 \<Longrightarrow> ResetLogger a1 e2 = Inr (OK, a3, e3) \<Longrightarrow>
   logger a3 = Some l \<Longrightarrow>
   Logv ndebug msg a e =
     Some (Inr (a3, e3\<lparr>contents := (contents e3)
        (file_id l := contents e3 (file_id l) @ map c_str (headers a3) @ [msg])\<rparr>))"
  by (auto simp: Logv_def ok_def WriteHeaderInfo_def write_headers_Some pinned_write_def
      Logger_Logv_def cong: if_cong)

lemma example_RollLogFile:
  assumes "log_path a = ''/db''" and "log_fname a = ''/db/LOG''" and "clock e (reads e) = 5"
    and "entries e = [''/db/LOG'' \<mapsto> 0, ''/db/LOG.old.5'' \<mapsto> 1, ''/db/LOG.old.6'' \<mapsto> 2]"
  shows "RollLogFile a e =
     Some (snd (RenameFile ''/db/LOG'' ''/db/LOG.old.7'' (e\<lparr>reads := Suc (reads e)\<rparr>)))"
proof -
  have "\<forall>j<2. FileExists e (OldInfoLogFileName ''/db'' (5 + of_nat j))"
    by (simp add: less_2_cases_nat example_names FileExists_def assms(4))
  moreover have "\<not> FileExists e (OldInfoLogFileName ''/db'' (5 + of_nat 2))"
    by (simp add: example_names FileExists_def assms(4))
  ultimately have "free_old_name e ''/db'' 5 = Some (OldInfoLogFileName ''/db'' (5 + of_nat 2))"
    by (rule free_old_name_first)
  with assms(1-3) show ?thesis by (simp add: RollLogFile_eq example_names)
qed

lemma example_roll_condition_size:
  "roll_condition (example_sink 10 0) (example_env oc) =
     Inr (True, example_sink 10 0, example_env oc)"
  by (simp add: roll_condition_eq example_sink_def example_env_def GetLogFileSize_def)

lemma example_roll_condition_age:
  "roll_condition (example_sink 0 60) (example_env oc) =
     Inr (True, (example_sink 0 60)\<lparr>cached_now_access_count := 1\<rparr>, example_env oc)"
  by (simp add: roll_condition_eq LogExpired_cached example_sink_def example_env_def)

lemma LogExpired_keeps_clock:
  "clock (snd (snd (LogExpired a e))) = clock e"
  "seconds_of (snd (snd (LogExpired a e))) = seconds_of e"
  by (cases "call_NowMicros_every_N_records a \<le> cached_now_access_count a";
      simp add: LogExpired_refresh LogExpired_cached)+

lemma free_old_name_returns:
  "\<not> FileExists e (OldInfoLogFileName dir (now + of_nat k)) \<Longrightarrow>
   \<exists>old. free_old_name e dir now = Some old"
proof (induction k arbitrary: now)
  case 0
  then show ?case by (simp add: free_old_name_free)
next
  case (Suc k)
  show ?case
  proof (cases "FileExists e (OldInfoLogFileName dir now)")
    case True
    from Suc.prems have "\<not> FileExists e (OldInfoLogFileName dir (now + 1 + of_nat k))"
      by (simp add: add.assoc)
    then obtain old where "free_old_name e dir (now + 1) = Some old"
      using Suc.IH by blast
    with True show ?thesis by (simp add: free_old_name_taken)
  next
    case False
    then show ?thesis by (simp add: free_old_name_free)
  qed
qed

lemma RollLogFile_returns:
  assumes "\<not> FileExists e (OldInfoLogFileName (log_path a) (clock e (reads e) + of_nat k))"
  shows "\<exists>old. \<not> FileExists e old \<and>
           RollLogFile a e =
             Some (snd (RenameFile (log_fname a) old (e\<lparr>reads := Suc (reads e)\<rparr>)))"
proof -
  from free_old_name_returns [OF assms] obtain old
    where old: "free_old_name e (log_path a) (clock e (reads e)) = Some old" ..
  then have "\<not> FileExists e old" by (rule free_old_name_Some)
  with old show ?thesis by (auto simp: RollLogFile_eq)
qed

lemma roll_condition_Some:
  assumes "logger a = Some l"
  shows "roll_condition a e =
     Inr ((0 < kLogFileTimeToRoll a \<and> fst (LogExpired a e)) \<or>
          (0 < kMaxLogFileSize a \<and> kMaxLogFileSize a \<le> GetLogFileSize l e),
          (if 0 < kLogFileTimeToRoll a then fst (snd (LogExpired a e)) else a),
          (if 0 < kLogFileTimeToRoll a then snd (snd (LogExpired a e)) else e))"
  using assms by (auto simp: roll_condition_eq Let_def)

text \<open>The sink and the environment after a call of \<open>Logv\<close> that rolls.\<close>

lemma Logv_rotation:
  assumes st: "ndebug \<or> ok (status a)"
      and cond: "roll_condition a e = Inr (True, a1, e1)"
      and free: "\<not> FileExists e1 (OldInfoLogFileName (log_path a1) (clock e1 (reads e1) + of_nat k))"
  shows "\<exists>a' e' old. Logv ndebug msg a e = Some (Inr (a', e')) \<and>
           \<not> FileExists e1 old \<and>
           trace e' = trace e1 @ [EvRename (log_fname a1) old, EvNewLogger (log_fname a1)] \<and>
           opens e' = Suc (opens e1) \<and>
           (case open_plan e1 (opens e1) of
              OpenFails c m \<Rightarrow>
                logger a' = None \<and> status a' = Error c m \<and> contents e' = contents e1
            | Opens sized \<Rightarrow>
                logger a' =
                  Some \<lparr>file_id = fresh e1, reports_size = sized, level = INFO_LEVEL\<rparr> \<and>
                entries e' (log_fname a1) = Some (fresh e1) \<and>
                ok (status a') = sized \<and>
                contents e' (fresh e1) =
                  (if sized then map c_str (headers a1) @ [msg] else []))"
proof -
  from RollLogFile_returns [OF free] obtain old where old: "\<not> FileExists e1 old"
    and roll: "RollLogFile a1 e1 =
        Some (snd (RenameFile (log_fname a1) old (e1\<lparr>reads := Suc (reads e1)\<rparr>)))"
    by blast
  let ?e2 = "snd (RenameFile (log_fname a1) old (e1\<lparr>reads := Suc (reads e1)\<rparr>))"
  have same: "open_plan ?e2 (opens ?e2) = open_plan e1 (opens e1)" by simp
  show ?thesis
  proof (cases rule: ResetLogger_cases [of e1])
    case (fails c m)
    with same have plan: "open_plan ?e2 (opens ?e2) = OpenFails c m" by simp
    have "Logv ndebug msg a e =
        Some (Inr (a1\<lparr>status := Error c m, logger := None\<rparr>, snd (NewLogger (log_fname a1) ?e2)))"
      using st cond roll ResetLogger_fails [OF plan] by (rule Logv_dropped) (simp add: ok_def)
    with old fails plan show ?thesis by (simp add: NewLogger_contents)
  next
    case unsized
    with same have plan: "open_plan ?e2 (opens ?e2) = Opens False" by simp
    have "Logv ndebug msg a e =
        Some (Inr (a1\<lparr>status := NotSupported
              ''The underlying logger doesn't support GetLogFileSize()'',
            logger := Some \<lparr>file_id = fresh ?e2, reports_size = False, level = INFO_LEVEL\<rparr>\<rparr>,
          snd (NewLogger (log_fname a1) ?e2)))"
      using st cond roll ResetLogger_unsized [OF plan]
      by (rule Logv_dropped) (simp add: ok_def NotSupported_def)
    with old unsized plan show ?thesis
      by (simp add: NewLogger_contents NewLogger_entries ok_def NotSupported_def)
  next
    case sized
    with same have plan: "open_plan ?e2 (opens ?e2) = Opens True" by simp
    let ?l = "\<lparr>file_id = fresh ?e2, reports_size = True, level = INFO_LEVEL\<rparr>"
    let ?a3 = "a1\<lparr>status := OK, logger := Some ?l,
            cached_now := seconds_of ?e2 (clock ?e2 (reads ?e2)),
            ctime := seconds_of ?e2 (clock ?e2 (reads ?e2)),
            cached_now_access_count := 0\<rparr>"
    let ?e3 = "(snd (NewLogger (log_fname a1) ?e2))\<lparr>reads := Suc (reads ?e2)\<rparr>"
    have lg: "logger ?a3 = Some ?l" by simp
    have "Logv ndebug msg a e =
        Some (Inr (?a3, ?e3\<lparr>contents := (contents ?e3)
          (file_id ?l := contents ?e3 (file_id ?l) @ map c_str (headers ?a3) @ [msg])\<rparr>))"
      using st cond roll ResetLogger_sized [OF plan] lg by (rule Logv_rolled)
    with old sized plan show ?thesis
      by (simp add: NewLogger_contents NewLogger_entries ok_def)
  qed
qed

text \<open>
  C1. Take a call of \<open>Logv\<close> that passes the entry assertion, on a sink that has a
  writer, in an environment where some archived name is free for every clock reading.
  The call returns. If the age threshold is positive and \<open>LogExpired\<close> says so, or the
  size threshold is positive and the size reported by the current writer is at least
  the threshold, it has rotated: it has renamed the active file to a name that was free
  and then opened a writer at the active path, and nothing else; the sink holds the
  writer of that open (none when the open failed) and the stored status is its result;
  when the open gave a writer that reports its size, the new file holds the headers and
  the message. Otherwise it has not rotated: no rename and no open, the same writer and
  status, and the message appended to the current file. \<open>LogExpired\<close> answers whether
  the cached now (after a possible refresh) is at least \<open>ctime + kLogFileTimeToRoll\<close>,
  the sum being taken in 64 bits as in the source. It reads the clock only when the
  access counter has reached the constant \<open>N\<close>, and counts the access otherwise: after
  a reset of the counter, the next \<open>N\<close> accesses leave the clock unread.
\<close>

theorem Logv_rolls_iff:
  assumes st: "ndebug \<or> ok (status a)"
      and lg: "logger a = Some l"
      and free: "\<forall>n. \<exists>k. \<not> FileExists e
                  (OldInfoLogFileName (log_path a) (clock e n + of_nat k))"
  shows
    "(\<exists>a' e'. Logv ndebug msg a e = Some (Inr (a', e')) \<and>
        (if (0 < kLogFileTimeToRoll a \<and> fst (LogExpired a e)) \<or>
            (0 < kMaxLogFileSize a \<and> kMaxLogFileSize a \<le> GetLogFileSize l e)
         then (\<exists>old. \<not> FileExists e old \<and>
                 trace e' = trace e @
                   [EvRename (log_fname a) old, EvNewLogger (log_fname a)]) \<and>
              opens e' = Suc (opens e) \<and>
              (case open_plan e (opens e) of
                 OpenFails c m \<Rightarrow>
                   logger a' = None \<and> status a' = Error c m \<and> contents e' = contents e
               | Opens sized \<Rightarrow>
                   logger a' =
                     Some \<lparr>file_id = fresh e, reports_size = sized, level = INFO_LEVEL\<rparr> \<and>
                   entries e' (log_fname a) = Some (fresh e) \<and>
                   ok (status a') = sized \<and>
                   contents e' (fresh e) =
                     (if sized then map c_str (headers a) @ [msg] else []))
         else trace e' = trace e \<and> opens e' = opens e \<and> logger a' = logger a \<and>
              status a' = status a \<and>
              contents e' = (contents e)(file_id l := contents e (file_id l) @ [msg]))) \<and>
     fst (LogExpired a e) =
       (ctime a + kLogFileTimeToRoll a \<le> cached_now (fst (snd (LogExpired a e)))) \<and>
     (if call_NowMicros_every_N_records a \<le> cached_now_access_count a
      then reads (snd (snd (LogExpired a e))) = Suc (reads e) \<and>
           cached_now (fst (snd (LogExpired a e))) = seconds_of e (clock e (reads e)) \<and>
           cached_now_access_count (fst (snd (LogExpired a e))) = 1
      else snd (snd (LogExpired a e)) = e \<and>
           cached_now (fst (snd (LogExpired a e))) = cached_now a \<and>
           cached_now_access_count (fst (snd (LogExpired a e))) =
             cached_now_access_count a + 1) \<and>
     (\<forall>k\<le>unat (call_NowMicros_every_N_records a).
        cached_now_access_count a = 0 \<longrightarrow>
        LogExpired_times k a e = (a\<lparr>cached_now_access_count := of_nat k\<rparr>, e))"
proof -
  let ?R = "(0 < kLogFileTimeToRoll a \<and> fst (LogExpired a e)) \<or>
            (0 < kMaxLogFileSize a \<and> kMaxLogFileSize a \<le> GetLogFileSize l e)"
  let ?a1 = "if 0 < kLogFileTimeToRoll a then fst (snd (LogExpired a e)) else a"
  let ?e1 = "if 0 < kLogFileTimeToRoll a then snd (snd (LogExpired a e)) else e"
  have cond: "roll_condition a e = Inr (?R, ?a1, ?e1)"
    using lg by (rule roll_condition_Some)
  note k = roll_condition_keeps [OF cond]
  have clk: "clock ?e1 = clock e" by (simp add: LogExpired_keeps_clock)
  have call: "\<exists>a' e'. Logv ndebug msg a e = Some (Inr (a', e')) \<and>
        (if ?R
         then (\<exists>old. \<not> FileExists e old \<and>
                 trace e' = trace e @
                   [EvRename (log_fname a) old, EvNewLogger (log_fname a)]) \<and>
              opens e' = Suc (opens e) \<and>
              (case open_plan e (opens e) of
                 OpenFails c m \<Rightarrow>
                   logger a' = None \<and> status a' = Error c m \<and> contents e' = contents e
               | Opens sized \<Rightarrow>
                   logger a' =
                     Some \<lparr>file_id = fresh e, reports_size = sized, level = INFO_LEVEL\<rparr> \<and>
                   entries e' (log_fname a) = Some (fresh e) \<and>
                   ok (status a') = sized \<and>
                   contents e' (fresh e) =
                     (if sized then map c_str (headers a) @ [msg] else []))
         else trace e' = trace e \<and> opens e' = opens e \<and> logger a' = logger a \<and>
              status a' = status a \<and>
              contents e' = (contents e)(file_id l := contents e (file_id l) @ [msg]))"
  proof (cases ?R)
    case True
    then have cond': "roll_condition a e = Inr (True, ?a1, ?e1)" using cond by simp
    from free obtain j where "\<not> FileExists e
        (OldInfoLogFileName (log_path a) (clock e (reads ?e1) + of_nat j))" by blast
    then have free1: "\<not> FileExists ?e1
        (OldInfoLogFileName (log_path ?a1) (clock ?e1 (reads ?e1) + of_nat j))"
      unfolding clk k(5) by (simp add: FileExists_def k(10))
    from Logv_rotation [OF st cond' free1, of msg]
    obtain a' e' old where run: "Logv ndebug msg a e = Some (Inr (a', e'))"
      and old: "\<not> FileExists ?e1 old"
      and tr: "trace e' = trace ?e1 @ [EvRename (log_fname ?a1) old, EvNewLogger (log_fname ?a1)]"
      and op: "opens e' = Suc (opens ?e1)"
      and rest: "case open_plan ?e1 (opens ?e1) of
              OpenFails c m \<Rightarrow>
                logger a' = None \<and> status a' = Error c m \<and> contents e' = contents ?e1
            | Opens sized \<Rightarrow>
                logger a' =
                  Some \<lparr>file_id = fresh ?e1, reports_size = sized, level = INFO_LEVEL\<rparr> \<and>
                entries e' (log_fname ?a1) = Some (fresh ?e1) \<and>
                ok (status a') = sized \<and>
                contents e' (fresh ?e1) =
                  (if sized then map c_str (headers ?a1) @ [msg] else [])"
      by blast
    from old have old': "\<not> FileExists e old" by (simp add: FileExists_def k(10))
    from tr have tr': "trace e' = trace e @ [EvRename (log_fname a) old, EvNewLogger (log_fname a)]"
      unfolding k(6) k(8) .
    from op have op': "opens e' = Suc (opens e)" unfolding k(11) .
    from rest have rest': "case open_plan e (opens e) of
                 OpenFails c m \<Rightarrow>
                   logger a' = None \<and> status a' = Error c m \<and> contents e' = contents e
               | Opens sized \<Rightarrow>
                   logger a' =
                     Some \<lparr>file_id = fresh e, reports_size = sized, level = INFO_LEVEL\<rparr> \<and>
                   entries e' (log_fname a) = Some (fresh e) \<and>
                   ok (status a') = sized \<and>
                   contents e' (fresh e) =
                     (if sized then map c_str (headers a) @ [msg] else [])"
      unfolding k(4) k(6) k(9) k(11) k(12) k(13) .
    from True run old' tr' op' rest' show ?thesis by auto
  next
    case False
    then have cond': "roll_condition a e = Inr (False, ?a1, ?e1)" using cond by simp
    have lg1: "logger ?a1 = Some l" unfolding k(1) by (rule lg)
    have run: "Logv ndebug msg a e = Some (Inr (?a1, Logger_Logv l msg ?e1))"
      using st cond' lg1 by (rule Logv_stay)
    have "trace (Logger_Logv l msg ?e1) = trace e" "opens (Logger_Logv l msg ?e1) = opens e"
      "contents (Logger_Logv l msg ?e1) = (contents e)(file_id l := contents e (file_id l) @ [msg])"
      using k(8,9,11) by (simp_all add: Logger_Logv_def)
    with False run k(1,7) show ?thesis by auto
  qed
  have expired: "fst (LogExpired a e) =
       (ctime a + kLogFileTimeToRoll a \<le> cached_now (fst (snd (LogExpired a e))))"
    by (cases "call_NowMicros_every_N_records a \<le> cached_now_access_count a")
      (simp_all add: LogExpired_refresh LogExpired_cached)
  have refresh: "if call_NowMicros_every_N_records a \<le> cached_now_access_count a
      then reads (snd (snd (LogExpired a e))) = Suc (reads e) \<and>
           cached_now (fst (snd (LogExpired a e))) = seconds_of e (clock e (reads e)) \<and>
           cached_now_access_count (fst (snd (LogExpired a e))) = 1
      else snd (snd (LogExpired a e)) = e \<and>
           cached_now (fst (snd (LogExpired a e))) = cached_now a \<and>
           cached_now_access_count (fst (snd (LogExpired a e))) =
             cached_now_access_count a + 1"
    by (simp add: LogExpired_refresh LogExpired_cached)
  have amortized: "LogExpired_times k a e = (a\<lparr>cached_now_access_count := of_nat k\<rparr>, e)"
    if "k \<le> unat (call_NowMicros_every_N_records a)" and "cached_now_access_count a = 0" for k
    using LogExpired_times_cached [of a 0 k e] that by simp
  from call expired refresh amortized show ?thesis by blast
qed

theorem Logv_rolls_iff_witness:
  "(\<exists>a' e'. Logv False ''hello'' (example_sink 10 0) (example_env (Opens True))
       = Some (Inr (a', e')) \<and>
      trace e' = [EvRename ''/db/LOG'' ''/db/LOG.old.7'', EvNewLogger ''/db/LOG''] \<and>
      opens e' = 1 \<and>
      logger a' = Some \<lparr>file_id = 3, reports_size = True, level = INFO_LEVEL\<rparr> \<and>
      entries e' ''/db/LOG'' = Some 3 \<and>
      contents e' 3 = [''v1'', ''opts'', ''hello'']) \<and>
   (\<exists>a' e'. Logv False ''hello'' (example_sink 11 0) (example_env (Opens True))
       = Some (Inr (a', e')) \<and>
      trace e' = [] \<and> opens e' = 0 \<and>
      logger a' = Some \<lparr>file_id = 0, reports_size = True, level = INFO_LEVEL\<rparr> \<and>
      contents e' 0 = [''0123456789'', ''hello'']) \<and>
   LogExpired_times 100 (example_sink 10 0) (example_env (Opens True)) =
     ((example_sink 10 0)\<lparr>cached_now_access_count := 100\<rparr>, example_env (Opens True))"
proof -
  let ?e = "example_env (Opens True)"
  let ?l = "\<lparr>file_id = 0, reports_size = True, level = INFO_LEVEL\<rparr>"
  have st: "False \<or> ok (status (example_sink m 0))" for m
    by (simp add: example_sink_def ok_def)
  have lg: "logger (example_sink m 0) = Some ?l" for m
    by (simp add: example_sink_def)
  have free: "\<forall>n. \<exists>k. \<not> FileExists ?e
      (OldInfoLogFileName (log_path (example_sink m 0)) (clock ?e n + of_nat k))" for m
  proof (intro allI exI [of _ 2])
    fix n show "\<not> FileExists ?e
      (OldInfoLogFileName (log_path (example_sink m 0)) (clock ?e n + of_nat 2))"
      by (simp add: example_names FileExists_def example_env_def example_sink_def)
  qed
  have size: "GetLogFileSize ?l ?e = 10"
    by (simp add: example_env_def GetLogFileSize_def)
  have fields: "kMaxLogFileSize (example_sink m 0) = m" "kLogFileTimeToRoll (example_sink m 0) = 0"
    "cached_now_access_count (example_sink m 0) = 0"
    "call_NowMicros_every_N_records (example_sink m 0) = 100"
    "log_fname (example_sink m 0) = ''/db/LOG''" "headers (example_sink m 0) = [''v1'', ''opts'']"
    for m by (simp_all add: example_sink_def)
  have env: "trace ?e = []" "opens ?e = 0" "fresh ?e = 3" "open_plan ?e 0 = Opens True"
    "contents ?e 0 = [''0123456789'']"
    by (simp_all add: example_env_def)
  let ?e2 = "snd (RenameFile ''/db/LOG'' ''/db/LOG.old.7'' (?e\<lparr>reads := Suc (reads ?e)\<rparr>))"
  have roll: "RollLogFile (example_sink 10 0) ?e = Some ?e2"
    by (rule example_RollLogFile) (simp_all add: example_sink_def example_env_def)
  have "open_plan ?e2 (opens ?e2) = Opens True" by (simp add: example_env_def)
  note reset = ResetLogger_sized [OF this, of "example_sink 10 0"]
  from Logv_rolled [OF st example_roll_condition_size roll reset,
      where l = "\<lparr>file_id = fresh ?e2, reports_size = True, level = INFO_LEVEL\<rparr>"
        and msg = "''hello''"]
  obtain a1 e1 where run1: "Logv False ''hello'' (example_sink 10 0) ?e = Some (Inr (a1, e1))"
    and tr1: "trace e1 = [EvRename ''/db/LOG'' ''/db/LOG.old.7'', EvNewLogger ''/db/LOG'']"
    by (auto simp: example_env_def example_sink_def)
  from Logv_rolls_iff [OF st [of 10] lg [of 10] free [of 10], where msg = "''hello''"] run1 tr1
  have first: "\<exists>a' e'. Logv False ''hello'' (example_sink 10 0) ?e = Some (Inr (a', e')) \<and>
      trace e' = [EvRename ''/db/LOG'' ''/db/LOG.old.7'', EvNewLogger ''/db/LOG''] \<and>
      opens e' = 1 \<and>
      logger a' = Some \<lparr>file_id = 3, reports_size = True, level = INFO_LEVEL\<rparr> \<and>
      entries e' ''/db/LOG'' = Some 3 \<and>
      contents e' 3 = [''v1'', ''opts'', ''hello'']"
    by (auto simp: size fields env c_str_def)
  from Logv_rolls_iff [OF st [of 11] lg [of 11] free [of 11], where msg = "''hello''"]
  have second: "\<exists>a' e'. Logv False ''hello'' (example_sink 11 0) ?e = Some (Inr (a', e')) \<and>
      trace e' = [] \<and> opens e' = 0 \<and>
      logger a' = Some \<lparr>file_id = 0, reports_size = True, level = INFO_LEVEL\<rparr> \<and>
      contents e' 0 = [''0123456789'', ''hello'']"
    by (auto simp: size fields env lg)
  from Logv_rolls_iff [OF st [of 10] lg [of 10] free [of 10], where msg = "''hello''"]
  have third: "LogExpired_times 100 (example_sink 10 0) ?e =
     ((example_sink 10 0)\<lparr>cached_now_access_count := 100\<rparr>, ?e)"
    by (auto simp: fields)
  from first second third show ?thesis by blast
qed

subsection \<open>Rotation\<close>

lemma RollLogFile_keeps:
  assumes "RollLogFile a e = Some e'"
  shows "opens e' = opens e" "open_plan e' = open_plan e" "contents e' = contents e"
    "fresh e' = fresh e" "reads e' = Suc (reads e)" "clock e' = clock e"
    "seconds_of e' = seconds_of e"
  using assms by (auto simp: RollLogFile_eq split: option.splits)

lemma c_str_ValistToString: "c_str (ValistToString m) = ValistToString m"
  by (simp add: ValistToString_def c_str_def)

text \<open>
  C2. When a call of \<open>Logv\<close> rolls and the re-initialization succeeds, the call
  returns and the file then at the active path is the new one, written by the new
  writer, and holds exactly the retained headers in their insertion order followed by
  the message of the call. The retained headers are strings that \<open>LogHeader\<close> produced.
\<close>

theorem headers_replayed_before_message:
  assumes "ndebug \<or> ok (status a)"
      and "roll_condition a e = Inr (True, a1, e1)"
      and "RollLogFile a1 e1 = Some e2"
      and "open_plan e (opens e) = Opens True"
      and "headers a = map ValistToString hs"
  shows "\<exists>a' e' i. Logv ndebug msg a e = Some (Inr (a', e')) \<and>
           entries e' (log_fname a) = Some i \<and>
           logger a' = Some \<lparr>file_id = i, reports_size = True, level = INFO_LEVEL\<rparr> \<and>
           contents e' i = headers a @ [msg] \<and>
           headers a' = headers a \<and> ok (GetStatus a')"
proof -
  note k = roll_condition_keeps [OF assms(2)]
  note r = RollLogFile_keeps [OF assms(3)]
  have plan: "open_plan e2 (opens e2) = Opens True"
    using assms(4) k r by simp
  let ?l = "\<lparr>file_id = fresh e2, reports_size = True, level = INFO_LEVEL\<rparr>"
  let ?a3 = "a1\<lparr>status := OK, logger := Some ?l,
            cached_now := seconds_of e2 (clock e2 (reads e2)),
            ctime := seconds_of e2 (clock e2 (reads e2)),
            cached_now_access_count := 0\<rparr>"
  let ?e3 = "(snd (NewLogger (log_fname a1) e2))\<lparr>reads := Suc (reads e2)\<rparr>"
  have reset: "ResetLogger a1 e2 = Inr (OK, ?a3, ?e3)"
    using plan by (rule ResetLogger_sized)
  have lg: "logger ?a3 = Some ?l" by simp
  let ?e' = "?e3\<lparr>contents := (contents ?e3)
        (file_id ?l := contents ?e3 (file_id ?l) @ map c_str (headers ?a3) @ [msg])\<rparr>"
  have run: "Logv ndebug msg a e = Some (Inr (?a3, ?e'))"
    using assms(1,2,3) reset lg by (rule Logv_rolled)
  have hs: "map c_str (headers a) = headers a"
    by (simp add: assms(5) c_str_ValistToString)
  have "entries ?e' (log_fname a) = Some (fresh e2)"
    using plan k by (simp add: NewLogger_entries)
  moreover have "contents ?e' (fresh e2) = headers a @ [msg]"
    using plan k hs by (simp add: NewLogger_contents)
  moreover have "headers ?a3 = headers a" "ok (GetStatus ?a3)"
    using k by (simp_all add: ok_def GetStatus_def)
  ultimately show ?thesis using run lg by blast
qed

theorem headers_replayed_before_message_witness:
  "headers (example_sink 10 0) = map ValistToString [''v1'', ''opts''] \<and>
   outcome (Logv False ''hello'' (example_sink 10 0) (example_env (Opens True))) =
     Some (Inr (OK, Some [''v1'', ''opts'', ''hello'']))"
proof -
  let ?a = "example_sink 10 0" and ?e = "example_env (Opens True)"
  let ?e2 = "snd (RenameFile ''/db/LOG'' ''/db/LOG.old.7'' (?e\<lparr>reads := Suc (reads ?e)\<rparr>))"
  have st: "False \<or> ok (status ?a)" by (simp add: example_sink_def ok_def)
  have roll: "RollLogFile ?a ?e = Some ?e2"
    by (rule example_RollLogFile) (simp_all add: example_sink_def example_env_def)
  have plan: "open_plan ?e (opens ?e) = Opens True" by (simp add: example_env_def)
  have hs: "headers ?a = map ValistToString [''v1'', ''opts'']"
    by (simp add: example_sink_def ValistToString_def c_str_def MAXBUFFERSIZE_def)
  from headers_replayed_before_message
    [OF st example_roll_condition_size roll plan hs, of "''hello''"]
  obtain a' e' i where "Logv False ''hello'' ?a ?e = Some (Inr (a', e'))"
    and "entries e' (log_fname ?a) = Some i" and "contents e' i = headers ?a @ [''hello'']"
    and "ok (GetStatus a')" and "log_fname a' = log_fname ?a"
    using Logv_rolled [OF st example_roll_condition_size roll] ResetLogger_sized [of ?e2 ?a]
    by (auto simp: example_env_def)
  then have "outcome (Logv False ''hello'' ?a ?e) =
     Some (Inr (OK, Some [''v1'', ''opts'', ''hello'']))"
    by (simp add: outcome_def seen_def active_file_def ok_def example_sink_def)
  with hs show ?thesis by simp
qed

lemma Logv_seq_single: "Logv_seq ndebug [msg] a e = Logv ndebug msg a e"
  by (auto split: option.splits sum.splits)

lemma Logv_seq_Inr:
  "Logv ndebug msg a e = Some (Inr (a1, e1)) \<Longrightarrow>
   Logv_seq ndebug (msg # msgs) a e = Logv_seq ndebug msgs a1 e1"
  by simp

text \<open>
  C3, as amended. When a call of \<open>Logv\<close> rolls and the re-initialization fails (the
  open fails, or the writer cannot report its size), the call returns normally, the
  stored status is that error, no line was written to any file, and the retained
  headers are kept.
\<close>

theorem failed_reset_drops_message:
  assumes "ndebug \<or> ok (status a)"
      and "roll_condition a e = Inr (True, a1, e1)"
      and "RollLogFile a1 e1 = Some e2"
      and "open_plan e (opens e) \<noteq> Opens True"
  shows "\<exists>a' e'. Logv ndebug msg a e = Some (Inr (a', e')) \<and>
           \<not> ok (GetStatus a') \<and>
           GetStatus a' =
             (case open_plan e (opens e) of
                OpenFails c m \<Rightarrow> Error c m
              | Opens sized \<Rightarrow>
                  NotSupported ''The underlying logger doesn't support GetLogFileSize()'') \<and>
           (\<forall>i. contents e' i = contents e i \<or> contents e' i = []) \<and>
           headers a' = headers a"
proof -
  note k = roll_condition_keeps [OF assms(2)]
  note r = RollLogFile_keeps [OF assms(3)]
  have same: "open_plan e2 (opens e2) = open_plan e (opens e)"
    using k r by simp
  show ?thesis
  proof (cases "open_plan e (opens e)")
    case (OpenFails c m)
    with same have plan: "open_plan e2 (opens e2) = OpenFails c m" by simp
    let ?a3 = "a1\<lparr>status := Error c m, logger := None\<rparr>"
    let ?e3 = "snd (NewLogger (log_fname a1) e2)"
    have reset: "ResetLogger a1 e2 = Inr (Error c m, ?a3, ?e3)"
      using plan by (rule ResetLogger_fails)
    have "Logv ndebug msg a e = Some (Inr (?a3, ?e3))"
      using assms(1,2,3) reset by (rule Logv_dropped) (simp add: ok_def)
    moreover have "contents ?e3 = contents e"
      using plan k r by (simp add: NewLogger_contents)
    ultimately show ?thesis
      using OpenFails k by (simp add: GetStatus_def ok_def)
  next
    case (Opens sized)
    with assms(4) have unsized: "open_plan e (opens e) = Opens False" by simp
    with same have plan: "open_plan e2 (opens e2) = Opens False" by simp
    let ?s = "NotSupported ''The underlying logger doesn't support GetLogFileSize()''"
    let ?a3 = "a1\<lparr>status := ?s,
        logger := Some \<lparr>file_id = fresh e2, reports_size = False, level = INFO_LEVEL\<rparr>\<rparr>"
    let ?e3 = "snd (NewLogger (log_fname a1) e2)"
    have reset: "ResetLogger a1 e2 = Inr (?s, ?a3, ?e3)"
      using plan by (rule ResetLogger_unsized)
    have "Logv ndebug msg a e = Some (Inr (?a3, ?e3))"
      using assms(1,2,3) reset by (rule Logv_dropped) (simp add: ok_def NotSupported_def)
    moreover have "contents ?e3 = (contents e)(fresh e2 := [])"
      using plan k r by (simp add: NewLogger_contents)
    ultimately show ?thesis
      using unsized k by (simp add: GetStatus_def ok_def NotSupported_def)
  qed
qed

theorem failed_reset_drops_message_witness:
  "open_plan (example_env (OpenFails kIOError ''disk full''))
      (opens (example_env (OpenFails kIOError ''disk full''))) \<noteq> Opens True \<and>
   outcome (Logv False ''hello'' (example_sink 10 0)
      (example_env (OpenFails kIOError ''disk full''))) =
     Some (Inr (Error kIOError ''disk full'', None))"
proof -
  let ?a = "example_sink 10 0" and ?e = "example_env (OpenFails kIOError ''disk full'')"
  let ?e2 = "snd (RenameFile ''/db/LOG'' ''/db/LOG.old.7'' (?e\<lparr>reads := Suc (reads ?e)\<rparr>))"
  have st: "False \<or> ok (status ?a)" by (simp add: example_sink_def ok_def)
  have roll: "RollLogFile ?a ?e = Some ?e2"
    by (rule example_RollLogFile) (simp_all add: example_sink_def example_env_def)
  have plan: "open_plan ?e (opens ?e) \<noteq> Opens True" by (simp add: example_env_def)
  have plan2: "open_plan ?e2 (opens ?e2) = OpenFails kIOError ''disk full''"
    by (simp add: example_env_def)
  from failed_reset_drops_message [OF st example_roll_condition_size roll plan, of "''hello''"]
  obtain a' e' where run: "Logv False ''hello'' ?a ?e = Some (Inr (a', e'))"
    and "GetStatus a' = Error kIOError ''disk full''"
    by (auto simp: example_env_def)
  moreover from run have "active_file a' e' = None"
    using Logv_dropped [OF st example_roll_condition_size roll ResetLogger_fails [OF plan2], of "''hello''"]
    by (auto simp: ok_def active_file_def NewLogger_entries RenameFile_entries
        example_env_def example_sink_def)
  ultimately have "outcome (Logv False ''hello'' ?a ?e) =
     Some (Inr (Error kIOError ''disk full'', None))"
    by (simp add: outcome_def seen_def)
  with plan show ?thesis by simp
qed

text \<open>
  C3 as stated fails in two places. A failure of the roll itself goes unnoticed: when
  the rename fails (here there is no file at the active path) and the open succeeds, the
  call writes the headers and the message and the status is ok. And a log call that
  follows a failed re-initialization is not dropped: with assertions enabled it fails
  the assertion at the entry of \<open>Logv\<close>, and without them it dereferences the handle
  that the failed open has reset.
\<close>

theorem rotation_failure_counterexample:
  "\<not> ok (fst (RenameFile ''/db/LOG'' ''/db/LOG.old.5''
        ((example_env (Opens True))\<lparr>entries := Map.empty, reads := 1\<rparr>))) \<and>
   map_option (map_sum id (trace \<circ> snd))
     (Logv False ''hello'' (example_sink 10 0) ((example_env (Opens True))\<lparr>entries := Map.empty\<rparr>)) =
     Some (Inr [EvRename ''/db/LOG'' ''/db/LOG.old.5'', EvNewLogger ''/db/LOG'']) \<and>
   outcome (Logv False ''hello'' (example_sink 10 0)
      ((example_env (Opens True))\<lparr>entries := Map.empty\<rparr>)) =
     Some (Inr (OK, Some [''v1'', ''opts'', ''hello''])) \<and>
   outcome (Logv_seq False [''hello'', ''again''] (example_sink 10 0)
      (example_env (OpenFails kIOError ''disk full''))) = Some (Inl AssertionFailed) \<and>
   outcome (Logv_seq True [''hello'', ''again''] (example_sink 10 0)
      (example_env (OpenFails kIOError ''disk full''))) = Some (Inl NullDereference)"
proof -
  let ?a = "example_sink 10 0"
  let ?lost = "(example_env (Opens True))\<lparr>entries := Map.empty\<rparr>"
  let ?full = "example_env (OpenFails kIOError ''disk full'')"
  have rename: "\<not> ok (fst (RenameFile ''/db/LOG'' ''/db/LOG.old.5'' (?lost\<lparr>reads := 1\<rparr>)))"
    by (simp add: RenameFile_def ok_def)
  have st: "ndebug \<or> ok (status ?a)" for ndebug by (simp add: example_sink_def ok_def)
  have cond: "roll_condition ?a ?lost = Inr (True, ?a, ?lost)"
    by (simp add: roll_condition_eq example_sink_def example_env_def GetLogFileSize_def)
  let ?l2 = "snd (RenameFile ''/db/LOG'' ''/db/LOG.old.5'' (?lost\<lparr>reads := Suc (reads ?lost)\<rparr>))"
  have roll: "RollLogFile ?a ?lost = Some ?l2"
    by (simp add: RollLogFile_eq free_old_name_free FileExists_def example_names
        example_sink_def example_env_def)
  have "open_plan ?l2 (opens ?l2) = Opens True" by (simp add: example_env_def)
  note reset = ResetLogger_sized [OF this, of ?a]
  from Logv_rolled [OF st [of False] cond roll reset,
      where l = "\<lparr>file_id = fresh ?l2, reports_size = True, level = INFO_LEVEL\<rparr>"
        and msg = "''hello''"]
  obtain a' e' where run: "Logv False ''hello'' ?a ?lost = Some (Inr (a', e'))"
    and a': "status a' = OK" "log_fname a' = ''/db/LOG''"
    and e': "entries e' ''/db/LOG'' = Some 3" "contents e' 3 = [''v1'', ''opts'', ''hello'']"
      "trace e' = [EvRename ''/db/LOG'' ''/db/LOG.old.5'', EvNewLogger ''/db/LOG'']"
    by (auto simp: NewLogger_entries NewLogger_contents RenameFile_entries example_env_def
        example_sink_def c_str_def)
  have written: "outcome (Logv False ''hello'' ?a ?lost) =
     Some (Inr (OK, Some [''v1'', ''opts'', ''hello'']))"
    by (simp add: run a' e' outcome_def seen_def active_file_def GetStatus_def)
  have tr: "map_option (map_sum id (trace \<circ> snd)) (Logv False ''hello'' ?a ?lost) =
     Some (Inr [EvRename ''/db/LOG'' ''/db/LOG.old.5'', EvNewLogger ''/db/LOG''])"
    by (simp add: run e')
  let ?f2 = "snd (RenameFile ''/db/LOG'' ''/db/LOG.old.7'' (?full\<lparr>reads := Suc (reads ?full)\<rparr>))"
  have roll_full: "RollLogFile ?a ?full = Some ?f2"
    by (rule example_RollLogFile) (simp_all add: example_sink_def example_env_def)
  have "open_plan ?f2 (opens ?f2) = OpenFails kIOError ''disk full''"
    by (simp add: example_env_def)
  note fail = ResetLogger_fails [OF this, of ?a]
  have first: "Logv ndebug ''hello'' ?a ?full =
      Some (Inr (?a\<lparr>status := Error kIOError ''disk full'', logger := None\<rparr>,
                 snd (NewLogger (log_fname ?a) ?f2)))" for ndebug
    using st example_roll_condition_size roll_full fail by (rule Logv_dropped) (simp add: ok_def)
  have seq: "Logv_seq ndebug [''hello'', ''again''] ?a ?full =
      Logv ndebug ''again'' (?a\<lparr>status := Error kIOError ''disk full'', logger := None\<rparr>)
        (snd (NewLogger (log_fname ?a) ?f2))" for ndebug
    by (simp only: Logv_seq_Inr [OF first] Logv_seq_single)
  have debug: "outcome (Logv_seq False [''hello'', ''again''] ?a ?full) = Some (Inl AssertionFailed)"
    unfolding seq by (simp add: outcome_def Logv_def ok_def)
  have release: "outcome (Logv_seq True [''hello'', ''again''] ?a ?full) = Some (Inl NullDereference)"
    unfolding seq by (simp add: outcome_def Logv_def roll_condition_eq example_sink_def)
  from rename tr written debug release show ?thesis by simp
qed

subsection \<open>What the factory returns\<close>

lemma Old_neq_active: "OldInfoLogFileName dir ts \<noteq> InfoLogFileName dir"
  by (simp add: OldInfoLogFileName_def InfoLogFileName_def)

lemma CreateDirIfMissing_fields [simp]:
  "trace (snd (CreateDirIfMissing p e)) = trace e @ [EvCreateDir p]"
  "entries (snd (CreateDirIfMissing p e)) = entries e"
  "contents (snd (CreateDirIfMissing p e)) = contents e"
  "fresh (snd (CreateDirIfMissing p e)) = fresh e"
  "reads (snd (CreateDirIfMissing p e)) = reads e"
  "clock (snd (CreateDirIfMissing p e)) = clock e"
  "opens (snd (CreateDirIfMissing p e)) = opens e"
  "open_plan (snd (CreateDirIfMissing p e)) = open_plan e"
  "seconds_of (snd (CreateDirIfMissing p e)) = seconds_of e"
  by (simp_all add: CreateDirIfMissing_def Let_def split: option.split)

lemma NewLogger_result:
  "fst (NewLogger fname e) =
     (case open_plan e (opens e) of
        OpenFails c m \<Rightarrow> (Error c m, None)
      | Opens sized \<Rightarrow>
          (OK, Some \<lparr>file_id = fresh e, reports_size = sized, level = INFO_LEVEL\<rparr>))"
  by (simp add: NewLogger_def Let_def split: open_outcome.split)

lemma CreateLogger_plain_eq:
  "CreateLogger new dir lg e 0 0 log_level =
     (let e3 = snd (RenameFile (InfoLogFileName dir)
                 (OldInfoLogFileName dir (clock e (reads e)))
                 ((snd (CreateDirIfMissing dir e))\<lparr>reads := Suc (reads e)\<rparr>));
          r = NewLogger (InfoLogFileName dir) e3
      in Some (Inr (fst (fst r),
           (case snd (fst r) of
              None \<Rightarrow> None
            | Some w \<Rightarrow> Some (Plain (SetInfoLogLevel log_level w))),
           snd r)))"
  by (simp add: CreateLogger_def NowMicros_def Let_def case_prod_beta)

text \<open>
  C6. Called with both thresholds 0, on an environment where the open succeeds, the
  factory creates the directory, renames the active path to the archived name for the
  current clock reading (whether or not a file is there), opens a writer at the active
  path and sets its level to the requested one; it returns ok and that plain writer.
  The file at the active path is then new and empty, every other file has the content it
  had, and the file that was at the active path, if any, is at the archived name.
\<close>

theorem CreateLogger_without_thresholds:
  assumes "open_plan e (opens e) = Opens sized"
  shows "\<exists>l e'. CreateLogger new dir lg e 0 0 log_level = Some (Inr (OK, Some (Plain l), e')) \<and>
           trace e' = trace e @
             [EvCreateDir dir,
              EvRename (InfoLogFileName dir) (OldInfoLogFileName dir (clock e (reads e))),
              EvNewLogger (InfoLogFileName dir)] \<and>
           level l = log_level \<and> file_id l = fresh e \<and>
           entries e' (InfoLogFileName dir) = Some (fresh e) \<and>
           contents e' (fresh e) = [] \<and>
           (\<forall>i. i \<noteq> fresh e \<longrightarrow> contents e' i = contents e i) \<and>
           (\<forall>i. entries e (InfoLogFileName dir) = Some i \<longrightarrow>
              entries e' (OldInfoLogFileName dir (clock e (reads e))) = Some i)"
proof -
  let ?e3 = "snd (RenameFile (InfoLogFileName dir)
                 (OldInfoLogFileName dir (clock e (reads e)))
                 ((snd (CreateDirIfMissing dir e))\<lparr>reads := Suc (reads e)\<rparr>))"
  let ?l = "\<lparr>file_id = fresh e, reports_size = sized, level = log_level\<rparr>"
  let ?e' = "snd (NewLogger (InfoLogFileName dir) ?e3)"
  have plan: "open_plan ?e3 (opens ?e3) = Opens sized" using assms by simp
  have run: "CreateLogger new dir lg e 0 0 log_level = Some (Inr (OK, Some (Plain ?l), ?e'))"
    using plan by (simp add: CreateLogger_plain_eq NewLogger_result SetInfoLogLevel_def)
  have "trace ?e' = trace e @
             [EvCreateDir dir,
              EvRename (InfoLogFileName dir) (OldInfoLogFileName dir (clock e (reads e))),
              EvNewLogger (InfoLogFileName dir)]"
    by simp
  moreover have "entries ?e' (InfoLogFileName dir) = Some (fresh e)"
    using plan by (simp add: NewLogger_entries)
  moreover have "contents ?e' (fresh e) = []" "\<forall>i. i \<noteq> fresh e \<longrightarrow> contents ?e' i = contents e i"
    using plan by (simp_all add: NewLogger_contents)
  moreover have "entries ?e' (OldInfoLogFileName dir (clock e (reads e))) = Some i"
    if "entries e (InfoLogFileName dir) = Some i" for i
    using plan that by (simp add: NewLogger_entries RenameFile_entries Old_neq_active)
  ultimately show ?thesis using run by (intro exI [of _ ?l] exI [of _ ?e']) simp
qed

theorem CreateLogger_without_thresholds_witness:
  "open_plan (example_env (Opens True)) (opens (example_env (Opens True))) = Opens True \<and>
   (\<exists>l e'. CreateLogger (new_AutoRollLogger 100) ''/db'' None (example_env (Opens True)) 0 0
        WARN_LEVEL = Some (Inr (OK, Some (Plain l), e')) \<and>
      level l = WARN_LEVEL \<and>
      trace e' = [EvCreateDir ''/db'', EvRename ''/db/LOG'' ''/db/LOG.old.5'',
                  EvNewLogger ''/db/LOG''] \<and>
      entries e' ''/db/LOG'' = Some 3 \<and> contents e' 3 = [] \<and>
      entries e' ''/db/LOG.old.5'' = Some 0 \<and> contents e' 0 = [''0123456789''])"
proof -
  let ?e = "example_env (Opens True)"
  have plan: "open_plan ?e (opens ?e) = Opens True" by (simp add: example_env_def)
  have old: "entries ?e (InfoLogFileName ''/db'') = Some 0"
    by (simp add: example_env_def InfoLogFileName_def)
  from CreateLogger_without_thresholds [OF plan, of "new_AutoRollLogger 100" "''/db''" None WARN_LEVEL]
  obtain l e' where "CreateLogger (new_AutoRollLogger 100) ''/db'' None ?e 0 0 WARN_LEVEL
        = Some (Inr (OK, Some (Plain l), e'))"
    and "level l = WARN_LEVEL"
    and "trace e' = [EvCreateDir ''/db'', EvRename ''/db/LOG'' ''/db/LOG.old.5'',
                  EvNewLogger ''/db/LOG'']"
    and "entries e' ''/db/LOG'' = Some 3" and "contents e' 3 = []"
    and "entries e' ''/db/LOG.old.5'' = Some 0" and "contents e' 0 = [''0123456789'']"
    using old by (auto simp: example_env_def InfoLogFileName_def example_names)
  with plan show ?thesis by blast
qed





subsection \<open>Truncation\<close>

lemma length_ValistToString: "length (ValistToString msg) < MAXBUFFERSIZE"
proof -
  have "length (ValistToString msg) \<le> length (take (MAXBUFFERSIZE - 1) msg)"
    unfolding ValistToString_def c_str_def by (rule length_takeWhile_le)
  also have "\<dots> < MAXBUFFERSIZE" by (simp add: MAXBUFFERSIZE_def)
  finally show ?thesis .
qed

lemma prefix_ValistToString: "prefix (ValistToString msg) msg"
proof -
  have "prefix (ValistToString msg) (take (MAXBUFFERSIZE - 1) msg)"
    unfolding ValistToString_def c_str_def by (rule takeWhile_is_prefix)
  also have "prefix (take (MAXBUFFERSIZE - 1) msg) msg" by (rule take_is_prefix)
  finally show ?thesis .
qed

lemma WriteHeaderInfo_Some:
  "logger a = Some l \<Longrightarrow>
   WriteHeaderInfo a e =
     Inr (e\<lparr>contents := (contents e)(file_id l := contents e (file_id l) @ map c_str (headers a))\<rparr>)"
  by (simp add: WriteHeaderInfo_def write_headers_Some)

text \<open>
  C8, as amended. The string that \<open>LogHeader\<close> retains is a prefix of the formatted
  message of fewer than \<open>MAXBUFFERSIZE\<close> characters, so the header lines that
  \<open>WriteHeaderInfo\<close> replays into a new file are bounded. The message of an ordinary
  log call, and the one \<open>LogHeader\<close> writes at once, go to the underlying writer as they
  are.
\<close>

theorem retained_headers_bounded:
  "length (ValistToString msg) < MAXBUFFERSIZE \<and> prefix (ValistToString msg) msg \<and>
   (logger a = Some l \<longrightarrow>
      LogHeader msg a e =
        Inr (a\<lparr>headers := headers a @ [ValistToString msg]\<rparr>, Logger_Logv l msg e) \<and>
      pinned_write msg a e = Some (Inr (a, Logger_Logv l msg e)) \<and>
      contents (Logger_Logv l msg e) (file_id l) = contents e (file_id l) @ [msg]) \<and>
   (logger a = Some l \<and> headers a = map ValistToString hs \<longrightarrow>
      (\<exists>e'. WriteHeaderInfo a e = Inr e' \<and>
         contents e' (file_id l) = contents e (file_id l) @ headers a \<and>
         (\<forall>line \<in> set (headers a). length line < MAXBUFFERSIZE)))"
proof -
  have replay: "\<exists>e'. WriteHeaderInfo a e = Inr e' \<and>
         contents e' (file_id l) = contents e (file_id l) @ headers a \<and>
         (\<forall>line \<in> set (headers a). length line < MAXBUFFERSIZE)"
    if "logger a = Some l" and "headers a = map ValistToString hs"
  proof -
    from that(2) have "map c_str (headers a) = headers a"
      by (simp add: c_str_ValistToString)
    moreover from that(2) have "\<forall>line \<in> set (headers a). length line < MAXBUFFERSIZE"
      by (auto simp: length_ValistToString)
    ultimately show ?thesis using that(1) by (simp add: WriteHeaderInfo_Some)
  qed
  have direct: "LogHeader msg a e =
        Inr (a\<lparr>headers := headers a @ [ValistToString msg]\<rparr>, Logger_Logv l msg e) \<and>
      pinned_write msg a e = Some (Inr (a, Logger_Logv l msg e)) \<and>
      contents (Logger_Logv l msg e) (file_id l) = contents e (file_id l) @ [msg]"
    if "logger a = Some l"
    using that by (simp add: LogHeader_Some pinned_write_def Logger_Logv_def)
  from replay direct show ?thesis
    by (simp add: length_ValistToString prefix_ValistToString)
qed

lemma ValistToString_long:
  "ValistToString (replicate 2000 (CHR ''x'')) = replicate 1023 (CHR ''x'')"
  by (simp add: ValistToString_def c_str_def MAXBUFFERSIZE_def takeWhile_replicate)

theorem retained_headers_bounded_witness:
  "logger (example_sink 0 0) = Some \<lparr>file_id = 0, reports_size = True, level = INFO_LEVEL\<rparr> \<and>
   headers (example_sink 0 0) = map ValistToString [''v1'', ''opts''] \<and>
   ValistToString (replicate 2000 (CHR ''x'')) = replicate 1023 (CHR ''x'') \<and>
   map_sum id (\<lambda>r. headers (fst r))
     (LogHeader (replicate 2000 (CHR ''x'')) (example_sink 0 0) (example_env (Opens True))) =
     Inr [''v1'', ''opts'', replicate 1023 (CHR ''x'')] \<and>
   map_sum id (\<lambda>e'. contents e' 0)
     (WriteHeaderInfo (example_sink 0 0) (example_env (Opens True))) =
     Inr [''0123456789'', ''v1'', ''opts'']"
proof -
  let ?a = "example_sink 0 0" and ?e = "example_env (Opens True)"
  have lg: "logger ?a = Some \<lparr>file_id = 0, reports_size = True, level = INFO_LEVEL\<rparr>"
    by (simp add: example_sink_def)
  have hs: "headers ?a = map ValistToString [''v1'', ''opts'']"
    by (simp add: example_sink_def ValistToString_def c_str_def MAXBUFFERSIZE_def)
  note th = retained_headers_bounded [of "replicate 2000 (CHR ''x'')" ?a
      "\<lparr>file_id = 0, reports_size = True, level = INFO_LEVEL\<rparr>" ?e "[''v1'', ''opts'']"]
  from th lg have "map_sum id (\<lambda>r. headers (fst r)) (LogHeader (replicate 2000 (CHR ''x'')) ?a ?e) =
     Inr [''v1'', ''opts'', replicate 1023 (CHR ''x'')]"
    by (simp add: ValistToString_long) (simp add: example_sink_def)
  moreover from th lg hs have "map_sum id (\<lambda>e'. contents e' 0) (WriteHeaderInfo ?a ?e) =
     Inr [''0123456789'', ''v1'', ''opts'']"
    by (auto simp: example_sink_def example_env_def)
  ultimately show ?thesis using lg hs by (simp add: ValistToString_long)
qed

text \<open>
  C8 as stated fails: the sink does not bound the lines of the ordinary path nor the
  line that \<open>LogHeader\<close> writes at once. A message of 2000 characters is appended in
  full by a writer that appends what it is given.
\<close>

theorem line_bound_counterexample:
  "MAXBUFFERSIZE < length (replicate 2000 (CHR ''x'')) \<and>
   outcome (Logv False (replicate 2000 (CHR ''x'')) (example_sink 0 0) (example_env (Opens True))) =
     Some (Inr (OK, Some [''0123456789'', replicate 2000 (CHR ''x'')])) \<and>
   map_sum id seen
     (LogHeader (replicate 2000 (CHR ''x'')) (example_sink 0 0) (example_env (Opens True))) =
     Inr (OK, Some [''0123456789'', replicate 2000 (CHR ''x'')])"
proof -
  let ?a = "example_sink 0 0" and ?e = "example_env (Opens True)"
  let ?m = "replicate 2000 (CHR ''x'')"
  have st: "False \<or> ok (status ?a)" by (simp add: example_sink_def ok_def)
  have cond: "roll_condition ?a ?e = Inr (False, ?a, ?e)"
    by (simp add: roll_condition_eq example_sink_def)
  have lg: "logger ?a = Some \<lparr>file_id = 0, reports_size = True, level = INFO_LEVEL\<rparr>"
    by (simp add: example_sink_def)
  have seen: "seen (a', Logger_Logv \<lparr>file_id = 0, reports_size = True, level = INFO_LEVEL\<rparr> ?m ?e)
      = (OK, Some [''0123456789'', ?m])"
    if "status a' = OK" and "log_fname a' = ''/db/LOG''" for a'
    using that
    by (simp add: seen_def GetStatus_def active_file_def Logger_Logv_def example_env_def
       )
  have "outcome (Logv False ?m ?a ?e) = Some (Inr (OK, Some [''0123456789'', ?m]))"
    unfolding Logv_stay [OF st cond lg] outcome_def
    by (simp add: seen example_sink_def)
  moreover have "map_sum id seen (LogHeader ?m ?a ?e) = Inr (OK, Some [''0123456789'', ?m])"
    unfolding LogHeader_Some [OF lg]
    by (simp add: seen example_sink_def)
  ultimately show ?thesis by (simp add: MAXBUFFERSIZE_def)
qed

end
